theory Spec2Isabelle
  imports Complex_Main "HOL-Library.Word" "HOL-Library.Signed_Division" "HOL-Library.Multiset"
begin

unbundle bit_operations_syntax

section \<open>Machine integers of RandFS.h\<close>

type_synonym u8 = "8 word"
type_synonym u32 = "32 word"
type_synonym u64 = "64 word"

section \<open>Hash: pairing functions and scalar mixers\<close>

text \<open>
  \<^verbatim>\<open>static uint64_t Pair(uint64_t k0, uint64_t k1)
    { uint64_t sum = k0 + k1; return ((sum * sum + sum) >> 1) + k1; }\<close>
  and the same body at 32 bits. Unsigned arithmetic wraps, \<open>>>\<close> is a logical shift.
\<close>

definition Hash_Pair64 :: "u64 \<Rightarrow> u64 \<Rightarrow> u64" where
  "Hash_Pair64 k0 k1 = (let sum = k0 + k1 in drop_bit 1 (sum * sum + sum) + k1)"

definition Hash_Pair32 :: "u32 \<Rightarrow> u32 \<Rightarrow> u32" where
  "Hash_Pair32 k0 k1 = (let sum = k0 + k1 in drop_bit 1 (sum * sum + sum) + k1)"

text \<open>
  \<^verbatim>\<open>uint64_t Hash::UInt64(uint64_t n)\<close>: the statements of the body in order, each
  rebinding \<open>x\<close>.
\<close>

definition Hash_UInt64 :: "u64 \<Rightarrow> u64" where
  "Hash_UInt64 n =
     (let x = n;
          x = x * 0x9ddfea08eb382d69;
          x = x XOR drop_bit 47 x;
          x = x XOR n;
          x = x * 0x9ddfea08eb382d69;
          x = x XOR drop_bit 47 x;
          x = x * 0x9ddfea08eb382d69
      in x)"

text \<open>\<^verbatim>\<open>uint32_t Hash::UInt32(uint32_t n)\<close>: the parameter is overwritten in place.\<close>

definition Hash_UInt32 :: "u32 \<Rightarrow> u32" where
  "Hash_UInt32 n0 =
     (let n = n0;
          n = n XOR drop_bit 16 n;
          n = n * 0x85ebca6b;
          n = n XOR drop_bit 13 n;
          n = n * 0xc2b2ae35;
          n = n XOR drop_bit 16 n
      in n)"

text \<open>
  \<^verbatim>\<open>uint64_t Hash::String64(const char* string)\<close>. The argument is the byte sequence
  the pointer addresses; the loop \<^verbatim>\<open>for (i = 0; string[i]; i++)\<close> stops at the first
  zero byte (or, in the model, at the end of the list, which stands for a terminator
  right after it). Whether \<^verbatim>\<open>uint64_t(string[i])\<close> sign-extends or zero-extends depends
  on the signedness of \<^verbatim>\<open>char\<close> on the target, so the widening is the parameter
  \<open>widen\<close>. The accumulator starts at 0.
\<close>

fun String64_loop :: "(u8 \<Rightarrow> u64) \<Rightarrow> u64 \<Rightarrow> u8 list \<Rightarrow> u64" where
  "String64_loop widen x [] = x"
| "String64_loop widen x (c # cs) =
     (if c = 0 then x else String64_loop widen (Hash_Pair64 x (widen c)) cs)"

definition Hash_String64 :: "(u8 \<Rightarrow> u64) \<Rightarrow> u8 list \<Rightarrow> u64" where
  "Hash_String64 widen string = Hash_UInt64 (String64_loop widen 0 string)"

subsection \<open>The formulas of the specification, on natural numbers\<close>

text \<open>
  The specification gives the pairing function and the two mixers as formulas "modulo
  \<open>2^64\<close>" (or \<open>2^32\<close>). They are written here on \<open>nat\<close> with every reduction spelled
  out, to be compared with the word-level definitions above.
\<close>

definition Pair_spec :: "nat \<Rightarrow> nat \<Rightarrow> nat" where
  "Pair_spec a b =
     (let s = (a + b) mod 2 ^ 64
      in (((s * s + s) mod 2 ^ 64) div 2 + b) mod 2 ^ 64)"

definition mix64_spec :: "nat \<Rightarrow> nat" where
  "mix64_spec n =
     (let x = n;
          x = (x * 0x9DDFEA08EB382D69) mod 2 ^ 64;
          x = x XOR (x div 2 ^ 47);
          x = x XOR n;
          x = (x * 0x9DDFEA08EB382D69) mod 2 ^ 64;
          x = x XOR (x div 2 ^ 47);
          x = (x * 0x9DDFEA08EB382D69) mod 2 ^ 64
      in x)"

definition mix32_spec :: "nat \<Rightarrow> nat" where
  "mix32_spec n0 =
     (let n = n0;
          n = n XOR (n div 2 ^ 16);
          n = (n * 0x85EBCA6B) mod 2 ^ 32;
          n = n XOR (n div 2 ^ 13);
          n = (n * 0xC2B2AE35) mod 2 ^ 32;
          n = n XOR (n div 2 ^ 16)
      in n)"

section \<open>Random: the MT19937-64 engine and its 32-bit packing\<close>

text \<open>
  \<^verbatim>\<open>class Random\<close> has four private fields. \<open>m_State\<close> is the array of 312 words, kept
  as a list of that length.
\<close>

record Random =
  m_State :: "u64 list"
  m_Index :: u32
  m_Cache :: u32
  m_HasCache :: bool

text \<open>
  \<^verbatim>\<open>Random::Random(uint64_t seed)\<close>. Word 0 is the seed; the loop writes words 1 to 311
  in order, each from its predecessor, and leaves \<open>m_Index\<close> at 312. The words not yet
  written are uninitialised in the source and never read; they are 0 here.
\<close>

definition Random_init :: "u64 \<Rightarrow> Random" where
  "Random_init seed =
     \<lparr> m_State =
         fold (\<lambda>i st. st[i := 0x5851f42d4c957f2d * (st ! (i - 1) XOR drop_bit 62 (st ! (i - 1)))
                               + of_nat i])
           [1..<312] (seed # replicate 311 0),
       m_Index = 312, m_Cache = 0, m_HasCache = False \<rparr>"

text \<open>
  The regeneration of the table inside \<^verbatim>\<open>Random::UInt64\<close>: two loops over
  \<open>i < 156\<close> and \<open>156 \<le> i < 311\<close> and the closing step for word 311, all in place.
\<close>

definition twist_word :: "u64 \<Rightarrow> u64 \<Rightarrow> u64 \<Rightarrow> u64" where
  "twist_word hi lo far =
     (let x = (hi AND 0xffffffff80000000) OR (lo AND 0x7fffffff)
      in far XOR drop_bit 1 x XOR ((x AND 1) * 0xb5026f5aa96619e9))"

definition twist :: "u64 list \<Rightarrow> u64 list" where
  "twist st0 =
     (let st = fold (\<lambda>i st. st[i := twist_word (st ! i) (st ! (i + 1)) (st ! (i + 156))])
                 [0..<156] st0;
          st = fold (\<lambda>i st. st[i := twist_word (st ! i) (st ! (i + 1)) (st ! (i - 156))])
                 [156..<311] st
      in st[311 := twist_word (st ! 311) (st ! 0) (st ! 155)])"

text \<open>\<^verbatim>\<open>uint64_t Random::UInt64()\<close>: regenerate when the cursor is past 311, read the
  word at the cursor, advance, temper.\<close>

definition Random_UInt64 :: "Random \<Rightarrow> u64 \<times> Random" where
  "Random_UInt64 r =
     (let r = (if 311 < m_Index r then r\<lparr>m_State := twist (m_State r), m_Index := 0\<rparr> else r);
          x = m_State r ! unat (m_Index r);
          r = r\<lparr>m_Index := m_Index r + 1\<rparr>;
          x = x XOR (drop_bit 29 x AND 0x5555555555555555);
          x = x XOR (push_bit 17 x AND 0x71d67fffeda60000);
          x = x XOR (push_bit 37 x AND 0xfff7eee000000000);
          x = x XOR drop_bit 43 x
      in (x, r))"

text \<open>\<^verbatim>\<open>uint32_t Random::UInt32()\<close>: the cached half if there is one, else a fresh
  64-bit draw whose upper half is cached and whose lower half is returned.\<close>

definition Random_UInt32 :: "Random \<Rightarrow> u32 \<times> Random" where
  "Random_UInt32 r =
     (if m_HasCache r then (m_Cache r, r\<lparr>m_HasCache := False\<rparr>)
      else
        (let (x, r) = Random_UInt64 r;
             r = r\<lparr>m_Cache := ucast (drop_bit 32 x)\<rparr>;
             r = r\<lparr>m_HasCache := True\<rparr>
         in (ucast x, r)))"

text \<open>
  Values of type \<^verbatim>\<open>int32_t\<close> are mathematical integers in the model; an operation
  whose result leaves the 32-bit range is undefined in C++ and is a failure (\<open>None\<close>)
  here, as is a remainder by zero.
\<close>

definition i32_ok :: "int \<Rightarrow> bool" where
  "i32_ok v = (- (2 ^ 31) \<le> v \<and> v < 2 ^ 31)"

text \<open>The conversion \<^verbatim>\<open>int32_t(u >> 1)\<close> of a 32-bit result \<open>u\<close>, used by both
  \<^verbatim>\<open>PosInt32\<close> functions: the shifted word read as two's complement.\<close>

definition pos_int32 :: "u32 \<Rightarrow> int" where
  "pos_int32 u = sint (drop_bit 1 u)"

text \<open>\<^verbatim>\<open>int32_t Random::PosInt32() { return int32_t(UInt32() >> 1); }\<close>\<close>

definition Random_PosInt32 :: "Random \<Rightarrow> int \<times> Random" where
  "Random_PosInt32 r = (let (u, r) = Random_UInt32 r in (pos_int32 u, r))"

text \<open>
  The expression \<^verbatim>\<open>p % (max - min) + min\<close> shared by \<^verbatim>\<open>Random::IntBetween\<close> and
  \<^verbatim>\<open>Hash::IntBetween\<close>, where \<open>p\<close> is the value of \<^verbatim>\<open>PosInt32\<close>. C++'s \<^verbatim>\<open>%\<close>
  truncates towards zero (\<open>smod\<close>). The parameters \<^verbatim>\<open>min\<close> and \<^verbatim>\<open>max\<close> are \<open>lo\<close> and
  \<open>hi\<close> here.
\<close>

definition IntBetween_expr :: "int \<Rightarrow> int \<Rightarrow> int \<Rightarrow> int option" where
  "IntBetween_expr p lo hi =
     (if \<not> i32_ok (hi - lo) then None
      else if hi - lo = 0 then None
      else if \<not> i32_ok (p smod (hi - lo) + lo) then None
      else Some (p smod (hi - lo) + lo))"

definition Random_IntBetween :: "int \<Rightarrow> int \<Rightarrow> Random \<Rightarrow> (int \<times> Random) option" where
  "Random_IntBetween lo hi r =
     (let (p, r) = Random_PosInt32 r
      in map_option (\<lambda>v. (v, r)) (IntBetween_expr p lo hi))"

text \<open>\<^verbatim>\<open>int32_t Hash::PosInt32(uint32_t n)\<close> and \<^verbatim>\<open>Hash::IntBetween\<close>.\<close>

definition Hash_PosInt32 :: "u32 \<Rightarrow> int" where
  "Hash_PosInt32 n = pos_int32 (Hash_UInt32 n)"

definition Hash_IntBetween :: "u32 \<Rightarrow> int \<Rightarrow> int \<Rightarrow> int option" where
  "Hash_IntBetween n lo hi = IntBetween_expr (Hash_PosInt32 n) lo hi"

text \<open>Consecutive draws: \<open>n\<close> calls of \<^verbatim>\<open>UInt64\<close>, or of \<^verbatim>\<open>UInt32\<close>, on the same
  instance, with the values returned in call order.\<close>

fun UInt64_calls :: "nat \<Rightarrow> Random \<Rightarrow> u64 list \<times> Random" where
  "UInt64_calls 0 r = ([], r)"
| "UInt64_calls (Suc n) r =
     (let (x, r) = Random_UInt64 r; (xs, r) = UInt64_calls n r in (x # xs, r))"

fun UInt32_calls :: "nat \<Rightarrow> Random \<Rightarrow> u32 list \<times> Random" where
  "UInt32_calls 0 r = ([], r)"
| "UInt32_calls (Suc n) r =
     (let (x, r) = Random_UInt32 r; (xs, r) = UInt32_calls n r in (x # xs, r))"

text \<open>The two 32-bit halves of a 64-bit draw, in the order \<^verbatim>\<open>UInt32\<close> hands them out.\<close>

definition halves :: "u64 \<Rightarrow> u32 list" where
  "halves x = [ucast x, ucast (drop_bit 32 x)]"

text \<open>Two instances agree on the engine proper: the table and the cursor, whatever the
  32-bit cache holds.\<close>

definition same_gen :: "Random \<Rightarrow> Random \<Rightarrow> bool" where
  "same_gen r g = (m_State r = m_State g \<and> m_Index r = m_Index g)"

section \<open>Random: shuffling\<close>



section \<open>The shader generator: depth\<close>

text \<open>
  \<^verbatim>\<open>int maxDepth = rand.IntBetween(3, 7) + rand.IntBetween(3, 7);\<close> in
  \<^verbatim>\<open>GenerateShaderCode\<close>. C++ leaves the order of the two calls open; the sum and the
  final state are the same for both orders.
\<close>

definition draw_maxDepth :: "Random \<Rightarrow> (int \<times> Random) option" where
  "draw_maxDepth rand =
     (case Random_IntBetween 3 7 rand of
        None \<Rightarrow> None
      | Some (a, rand) \<Rightarrow>
          (case Random_IntBetween 3 7 rand of
             None \<Rightarrow> None
           | Some (b, rand) \<Rightarrow> Some (a + b, rand)))"

text \<open>The depth as a function of the two 32-bit results the calls consume, the set of
  depths some pair of results produces, and the number of pairs producing a given depth.\<close>

definition maxDepth_of_draws :: "u32 \<Rightarrow> u32 \<Rightarrow> int option" where
  "maxDepth_of_draws u1 u2 =
     (case IntBetween_expr (pos_int32 u1) 3 7 of
        None \<Rightarrow> None
      | Some a \<Rightarrow>
          (case IntBetween_expr (pos_int32 u2) 3 7 of
             None \<Rightarrow> None
           | Some b \<Rightarrow> Some (a + b)))"

definition maxDepth_values :: "int set" where
  "maxDepth_values = {d. \<exists>u1 u2. maxDepth_of_draws u1 u2 = Some d}"

definition depth_count :: "int \<Rightarrow> nat" where
  "depth_count d = card {(u1, u2). maxDepth_of_draws u1 u2 = Some d}"

text \<open>Bits 1 and 2 of a 32-bit result, which decide \<open>IntBetween(3, 7)\<close>, and the results
  sharing them.\<close>

definition quarter :: "u32 \<Rightarrow> int" where
  "quarter u = uint u div 2 mod 4"

definition quarter_class :: "int \<Rightarrow> u32 set" where
  "quarter_class k = {u. quarter u = k}"

section \<open>The shader generator: text and catalogs\<close>

text \<open>
  The two raw string literals of \<^verbatim>\<open>GenerateShaderCode\<close> are kept line by line: a pair
  \<open>(n, s)\<close> is a source line of \<open>n\<close> leading tab characters followed by \<open>s\<close>, and the
  lines are joined by newline characters. Both literals start with a newline (an empty
  first line) and end with the indentation of the closing delimiter.
\<close>

definition tabs :: "nat \<Rightarrow> string" where
  "tabs n = replicate n (CHR 0x09)"

fun source_text :: "(nat \<times> string) list \<Rightarrow> string" where
  "source_text [] = []"
| "source_text [(n, s)] = tabs n @ s"
| "source_text ((n, s) # ls) = tabs n @ s @ CHR ''\<newline>'' # source_text ls"

text \<open>\<^verbatim>\<open>static constexpr char functionDefinitions[]\<close>\<close>

definition functionDefinitions_lines :: "(nat \<times> string) list" where
  "functionDefinitions_lines =
     [(0, ''''),
      (1, ''''),
      (1, ''// 1 input''),
      (1, ''''),
      (1, ''fn fInv(x: f32) -> f32''),
      (1, ''{''),
      (2, ''return 1.0f - x;''),
      (1, ''}''),
      (1, ''''),
      (1, ''fn fSqr(x: f32) -> f32''),
      (1, ''{''),
      (2, ''return x * x;''),
      (1, ''}''),
      (1, ''''),
      (1, ''fn fSqrt(x: f32) -> f32''),
      (1, ''{''),
      (2, ''return sqrt(x);''),
      (1, ''}''),
      (1, ''''),
      (1, ''fn fSmooth(x: f32) -> f32''),
      (1, ''{''),
      (2, ''let x2: f32 = x * x;''),
      (2, ''let x3: f32 = x2 * x;''),
      (2, ''return x2 + x2 + x2 - x3 - x3;''),
      (1, ''}''),
      (0, ''''),
      (1, ''fn fSharp(x: f32) -> f32''),
      (1, ''{''),
      (2, ''return x * (x * (x + x - 3.0f) + 2.0f);''),
      (1, ''}''),
      (1, ''''),
      (1, ''// -------------------------------------''),
      (1, ''// 2 inputs''),
      (1, ''''),
      (1, ''fn fAdd(x: f32, y: f32) -> f32''),
      (1, ''{''),
      (2, ''let res: f32 = x + y;''),
      (2, ''if (res > 1.0f)''),
      (2, ''{''),
      (3, ''return 2.0f - res;''),
      (2, ''}''),
      (2, ''return res;''),
      (1, ''}''),
      (1, ''''),
      (1, ''fn fSub(x: f32, y: f32) -> f32''),
      (1, ''{''),
      (2, ''let res: f32 = x - y;''),
      (2, ''if (res < 0.0f)''),
      (2, ''{''),
      (3, ''return -res;''),
      (2, ''}''),
      (2, ''return res;''),
      (1, ''}''),
      (1, ''''),
      (1, ''fn fMul(x: f32, y: f32) -> f32''),
      (1, ''{''),
      (2, ''return x * y;''),
      (1, ''}''),
      (2, ''''),
      (1, ''fn fDiv(x: f32, y: f32) -> f32''),
      (1, ''{''),
      (2, ''var min: f32 = x;''),
      (2, ''var max: f32 = y;''),
      (2, ''''),
      (2, ''if (x > y)''),
      (2, ''{''),
      (3, ''min = y;''),
      (3, ''max = x;''),
      (2, ''}''),
      (2, ''if (max < 0.0001f)''),
      (2, ''{''),
      (3, ''max = 0.0001f;''),
      (2, ''}''),
      (2, ''return min / max;''),
      (1, ''}''),
      (1, ''''),
      (1, ''fn fAvg(x: f32, y: f32) -> f32''),
      (1, ''{''),
      (2, ''return (x + y) * 0.5f;''),
      (1, ''}''),
      (1, ''''),
      (1, ''fn fGeom(x: f32, y: f32) -> f32''),
      (1, ''{''),
      (2, ''return sqrt(x * y);''),
      (1, ''}''),
      (1, ''''),
      (1, ''fn fHarm(x: f32, y: f32) -> f32''),
      (1, ''{''),
      (2, ''var den: f32 = x + y;''),
      (2, ''if (den < 0.0001f)''),
      (2, ''{''),
      (3, ''den = 0.0001f;''),
      (2, ''}''),
      (2, ''return (2.0f * x * y) / den;''),
      (1, ''}''),
      (0, ''''),
      (1, ''fn fHypo(x: f32, y: f32) -> f32''),
      (1, ''{''),
      (2, ''return 0.70710678f * sqrt(x * x + y * y); // Scale by 1 / sqrt(2)''),
      (1, ''}'' @ tabs 1),
      (0, ''''),
      (1, ''fn fMax(x: f32, y: f32) -> f32''),
      (1, ''{''),
      (2, ''return select(y, x, x > y);''),
      (1, ''}''),
      (1, ''''),
      (1, ''fn fMin(x: f32, y: f32) -> f32''),
      (1, ''{''),
      (2, ''return select(y, x, x < y);''),
      (1, ''}''),
      (1, ''''),
      (1, ''fn fPow(x: f32, y: f32) -> f32''),
      (1, ''{''),
      (2, ''let exp1: f32 = y + y - 1.0f;''),
      (2, ''let exp2: f32 = pow(10.0f, exp1);''),
      (2, ''return pow(x, exp2);''),
      (1, ''}''),
      (0, ''''),
      (1, ''fn fBell(x: f32, y: f32) -> f32''),
      (1, ''{''),
      (2, ''let y2: f32 = y * y;''),
      (2, ''return pow(4.0f * x * (1.0f - x), 20.0f * y2 * y2 + 0.3f);''),
      (1, ''}''),
      (1, ''''),
      (1, ''fn fWave(x: f32, y: f32) -> f32''),
      (1, ''{''),
      (2, ''const MAX_FREQUENCY: f32 = 6.0f * 3.1415927f;''),
      (2, ''return 0.5f + 0.5f * cos(MAX_FREQUENCY * x * y);''),
      (1, ''}''),
      (1, ''''),
      (1, ''fn fBounce(x: f32, y: f32) -> f32''),
      (1, ''{''),
      (2, ''const FREQUENCY_FACTOR: f32 = 3.0f * 3.1415927f;''),
      (2, ''return abs(cos(FREQUENCY_FACTOR * x * (y + 0.5f)) * exp2(-3.0f * x));''),
      (1, ''}''),
      (0, ''''),
      (1, ''// -------------------------------------''),
      (1, ''// 3 inputs''),
      (1, ''''),
      (1, ''fn fLerp(x: f32, y: f32, z: f32) -> f32''),
      (1, ''{''),
      (2, ''return (1.0f - z) * x + z * y;''),
      (1, ''}''),
      (1, ''''),
      (1, ''fn fMlerp(x: f32, y: f32, z: f32) -> f32''),
      (1, ''{''),
      (2, ''let xMin = select(x, 0.0001f, x < 0.0001f);''),
      (2, ''return xMin * pow(y / xMin, z);''),
      (1, ''}''),
      (1, ''''),
      (1, ''fn fClamp(x: f32, y: f32, z: f32) -> f32''),
      (1, ''{''),
      (2, ''var min: f32 = x;''),
      (2, ''var max: f32 = y;''),
      (2, ''''),
      (2, ''if (x > y)''),
      (2, ''{''),
      (3, ''min = y;''),
      (3, ''max = x;''),
      (2, ''}''),
      (2, ''if (z < min)''),
      (2, ''{''),
      (3, ''return min;''),
      (2, ''}''),
      (2, ''else if (z > max)''),
      (2, ''{''),
      (3, ''return max;''),
      (2, ''}''),
      (2, ''return z;''),
      (1, ''}''),
      (1, ''''),
      (1, ''// -------------------------------------''),
      (1, ''// 4 inputs''),
      (2, ''''),
      (1, ''fn fDist(x: f32, y: f32, z: f32, w: f32) -> f32''),
      (1, ''{''),
      (2, ''let dx: f32 = x - z;''),
      (2, ''let dy: f32 = y - w;''),
      (2, ''return 0.70710678f * sqrt(dx * dx + dy * dy); // Scale by 1 / sqrt(2)''),
      (1, ''}''),
      (1, ''''),
      (1, ''fn fDistLine(x: f32, y: f32, z: f32, w: f32) -> f32''),
      (1, ''{''),
      (2, ''if (z < 0.499f)''),
      (2, ''{''),
      (3, ''let m: f32 = tan(z * 3.1415927f);''),
      (3, ''let n: f32 = (1.0f - w) * (1.0f + m) - m;''),
      (3, ''let c: f32 = (x + y * m - m * n) / (m * m + 1.0f);''),
      (3, ''let dx: f32 = c - x;''),
      (3, ''let dy: f32 = m * c + n - y;''),
      (3, ''return 0.70710678f * sqrt(dx * dx + dy * dy);''),
      (2, ''}''),
      (2, ''else if (z > 0.501f)''),
      (2, ''{''),
      (3, ''let m: f32 = tan(z * 3.1415927f);''),
      (3, ''let n: f32 = w - m * w;''),
      (3, ''let c: f32 = (x + y * m - m * n) / (m * m + 1.0f);''),
      (3, ''let dx: f32 = c - x;''),
      (3, ''let dy: f32 = m * c + n - y;''),
      (3, ''return 0.70710678f * sqrt(dx * dx + dy * dy);''),
      (2, ''}''),
      (2, ''else''),
      (2, ''{''),
      (3, ''return 0.70710678f * abs(w - x);''),
      (2, ''}''),
      (1, ''}''),
      (0, ''''),
      (1, ''// -------------------------------------''),
      (1, ''// Masks''),
      (0, ''''),
      (1, ''// Implement lerp since WGSL doesn'' @ [CHR 0x27] @ ''t have it natively''),
      (1, ''fn lerp(a: vec3f, b: vec3f, t: vec3f) -> vec3f''),
      (1, ''{''),
      (2, ''return a + t * (b - a);''),
      (1, ''}''),
      (0, ''''),
      (1, ''fn fInv3(v: vec3f) -> vec3f''),
      (1, ''{''),
      (2, ''return vec3f(1.0f, 1.0f, 1.0f) - v;''),
      (1, ''}''),
      (0, ''''),
      (1, ''fn fAdd3(v: vec3f, x: f32) -> vec3f''),
      (1, ''{''),
      (2, ''let res: vec3f = v + vec3f(x, x, x);''),
      (2, ''return lerp(res, 2.0f - res, step(vec3f(1.0f, 1.0f, 1.0f), res));''),
      (1, ''}''),
      (1, ''''),
      (1, ''fn fSub3(v: vec3f, x: f32) -> vec3f''),
      (1, ''{''),
      (2, ''let res: vec3f = v - vec3f(x, x, x);''),
      (2, ''return lerp(-res, res, step(vec3f(0.0f, 0.0f, 0.0f), res));''),
      (1, ''}''),
      (1, ''''),
      (1, '''')]"

definition functionDefinitions :: string where
  "functionDefinitions = source_text functionDefinitions_lines"

text \<open>\<^verbatim>\<open>std::string mainFunction\<close>, before any replacement.\<close>

definition mainFunction_lines :: "(nat \<times> string) list" where
  "mainFunction_lines =
     [(0, ''''),
      (0, ''''),
      (1, ''struct VertexOutput''),
      (1, ''{''),
      (2, ''@builtin(position) Position : vec4f,''),
      (2, ''@location(0) uv : vec2f''),
      (1, ''};''),
      (0, ''''),
      (1, ''@vertex''),
      (1, ''fn vertexMain(@builtin(vertex_index) i : u32) -> VertexOutput''),
      (1, ''{''),
      (2, ''// Fullscreen quad''),
      (2, ''const positions = array''),
      (2, ''(''),
      (3, ''vec2f(-1.0f, 1.0f), vec2f(1.0f, 1.0f), vec2f(-1.0f, -1.0f),''),
      (3, ''vec2f(-1.0f, -1.0f), vec2f(1.0f, 1.0f), vec2f(1.0f, -1.0f)''),
      (2, '');''),
      (0, ''''),
      (2, ''// UV coordinates''),
      (2, ''const uvs = array''),
      (2, ''(''),
      (3, ''vec2f(0.0f, 1.0f), vec2f(1.0f, 1.0f), vec2f(0.0f, 0.0f),''),
      (3, ''vec2f(0.0f, 0.0f), vec2f(1.0f, 1.0f), vec2f(1.0f, 0.0f)''),
      (2, '');''),
      (2, ''''),
      (2, ''// Assemble output''),
      (2, ''var output: VertexOutput;''),
      (2, ''output.Position = vec4f(positions[i], 0.0f, 1.0f);''),
      (2, ''output.uv = uvs[i];''),
      (2, ''return output;''),
      (1, ''}''),
      (0, ''''),
      (1, ''@group(0) @binding(0) var<uniform> buf : vec4f;''),
      (0, ''''),
      (1, ''@fragment''),
      (1, ''fn fragmentMain(input: VertexOutput) -> @location(0) vec4f''),
      (1, ''{''),
      (2, ''let invX = 1.0f - input.uv.x;''),
      (2, ''let invY = 1.0f - input.uv.y;''),
      (2, ''let sinTime = buf.x;''),
      (2, ''let cosTime = buf.y;''),
      (0, ''''),
      (2, ''let rgb: vec3f = vec3f(&, &, &);''),
      (2, ''let rgbMasked = &MASK&;''),
      (0, ''''),
      (2, ''return vec4f(rgbMasked, 1.0f);''),
      (1, ''}''),
      (0, ''''),
      (1, '''')]"

definition mainFunction :: string where
  "mainFunction = source_text mainFunction_lines"

text \<open>
  The catalogs \<^verbatim>\<open>values\<close> (with \<^verbatim>\<open>ANIMATE\<close> defined, as the source has it),
  \<^verbatim>\<open>functions\<close> and \<^verbatim>\<open>masks\<close>, entries commented out in the source left out, and their
  sizes, computed in the source as \<^verbatim>\<open>sizeof(a) / sizeof(const char*)\<close>. The
  constants carry the suffix \<open>_list\<close>.
\<close>

definition values_list :: "string list" where
  "values_list =
     [''input.uv.x'',
      ''input.uv.y'',
      ''invX'',
      ''invY'',
      ''sinTime'',
      ''cosTime'',
      ''#'',
      ''#'']"

definition functions_list :: "string list" where
  "functions_list =
     [''fInv(&)'',
      ''fSqr(&)'',
      ''fSqrt(&)'',
      ''fSmooth(&)'',
      ''fSharp(&)'',
      ''fAdd(&, &)'',
      ''fSub(&, &)'',
      ''fMul(&, &)'',
      ''fInv(fMul(&, &))'',
      ''fDiv(&, &)'',
      ''fAvg(&, &)'',
      ''fGeom(&, &)'',
      ''fHarm(&, &)'',
      ''fHypo(&, &)'',
      ''fInv(fHypo(&, &))'',
      ''fMax(&, &)'',
      ''fMin(&, &)'',
      ''fPow(&, &)'',
      ''fBell(&, &)'',
      ''fInv(fBell(&, &))'',
      ''fWave(&, &)'',
      ''fWave(&, &)'',
      ''fLerp(&, &, &)'',
      ''fMlerp(&, &, &)'',
      ''fDist(&, &, &, &)'',
      ''fDist(&, &, #, #)'',
      ''fDist(input.uv.x, input.uv.y, &, &)'',
      ''fDist(input.uv.x, input.uv.y, #, #)'',
      ''fInv(fDist(&, &, &, &))'',
      ''fInv(fDist(&, &, #, #))'',
      ''fInv(fDist(input.uv.x, input.uv.y, &, &))'',
      ''fInv(fDist(input.uv.x, input.uv.y, #, #))'',
      ''fDistLine(&, &, &, &)'',
      ''fDistLine(&, &, #, #)'',
      ''fDistLine(input.uv.x, input.uv.y, &, &)'',
      ''fDistLine(input.uv.x, input.uv.y, #, #)'',
      ''fInv(fDistLine(&, &, &, &))'',
      ''fInv(fDistLine(&, &, #, #))'',
      ''fInv(fDistLine(input.uv.x, input.uv.y, &, &))'',
      ''fInv(fDistLine(input.uv.x, input.uv.y, #, #))'']"

definition masks_list :: "string list" where
  "masks_list =
     [''rgb'',
      ''rgb'',
      ''rgb'',
      ''fAdd3(rgb, &)'',
      ''fSub3(rgb, &)'',
      ''fAdd3(fSub3(rgb, &), &)'',
      ''fSub3(fAdd3(rgb, &), &)'',
      ''fInv3(fAdd3(rgb, &))'',
      ''fInv3(fSub3(rgb, &))'',
      ''fInv3(fAdd3(fSub3(rgb, &), &))'',
      ''fInv3(fSub3(fAdd3(rgb, &), &))'']"

definition valuesSize :: nat where
  "valuesSize = length values_list"

definition functionsSize :: nat where
  "functionsSize = length functions_list"

definition masksSize :: nat where
  "masksSize = length masks_list"

definition maskToken :: string where
  "maskToken = ''&MASK&''"

section \<open>The shader generator: string operations and draws\<close>

text \<open>\<^verbatim>\<open>std::string::find(char)\<close> and \<^verbatim>\<open>std::string::find(const std::string&)\<close>: the
  position of the first occurrence, \<open>None\<close> for \<^verbatim>\<open>npos\<close>.\<close>

fun find_char :: "char \<Rightarrow> string \<Rightarrow> nat option" where
  "find_char c [] = None"
| "find_char c (x # xs) = (if x = c then Some 0 else map_option Suc (find_char c xs))"

fun find_sub :: "string \<Rightarrow> string \<Rightarrow> nat option" where
  "find_sub pat [] = (if pat = [] then Some 0 else None)"
| "find_sub pat (x # xs) =
     (if take (length pat) (x # xs) = pat then Some 0 else map_option Suc (find_sub pat xs))"

text \<open>\<^verbatim>\<open>s.replace(pos, len, str)\<close> for a position inside the string, as every call of the
  generator has it (the position comes from a successful \<^verbatim>\<open>find\<close>).\<close>

definition replace_at :: "nat \<Rightarrow> nat \<Rightarrow> string \<Rightarrow> string \<Rightarrow> string" where
  "replace_at pos len str s = take pos s @ str @ drop (pos + len) s"

text \<open>
  \<^verbatim>\<open>template <typename T> T& Element(T* arr, uint32_t size) { return arr[UInt32() % size]; }\<close>
  A remainder by zero and a read past the end of the array are undefined in the source
  and failures here.
\<close>

definition Random_Element :: "'a list \<Rightarrow> nat \<Rightarrow> Random \<Rightarrow> ('a \<times> Random) option" where
  "Random_Element arr sz r =
     (let (u, r) = Random_UInt32 r
      in if sz = 0 then None
         else if length arr \<le> unat u mod sz then None
         else Some (arr ! (unat u mod sz), r))"

text \<open>
  \<^verbatim>\<open>float Random::FloatO() { return ((UInt32() >> 9) + 0.5f) * (1.0f / 8388608.0f); }\<close>
  With \<open>k = UInt32() >> 9 < 2^23\<close>, the sum \<open>k + 0.5\<close> has at most 24 significant bits and
  the factor is the power of two \<open>2^-23\<close>, so every step is exact in IEEE single
  precision and the result is the rational \<open>(2k + 1) / 2^24\<close>.
\<close>

definition Random_FloatO :: "Random \<Rightarrow> rat \<times> Random" where
  "Random_FloatO r =
     (let (u, r) = Random_UInt32 r
      in ((of_nat (unat (drop_bit 9 u)) + 1 / 2) * (1 / 8388608), r))"

text \<open>
  \<^verbatim>\<open>std::to_string(float)\<close> prints as \<^verbatim>\<open>printf("%f")\<close> does in the C locale: the
  value rounded to six decimals, the integer part, a point, six digits. It is modelled
  for values \<open>v \<ge> 0\<close>. A result of \<open>FloatO\<close> is an odd multiple of \<open>2^-24\<close>, never
  half-way between two six-decimal numbers, so rounding to nearest is \<open>\<lfloor>v * 10^6 + 1/2\<rfloor>\<close>.
\<close>

definition digit_char :: "nat \<Rightarrow> char" where
  "digit_char d = ''0123456789'' ! d"

function decimal :: "nat \<Rightarrow> string" where
  "decimal n = (if n < 10 then [digit_char n] else decimal (n div 10) @ [digit_char (n mod 10)])"
  by pat_completeness auto
termination
  by (relation "measure id") auto

declare decimal.simps [simp del]

definition to_string_float :: "rat \<Rightarrow> string" where
  "to_string_float v =
     (let q = nat \<lfloor>v * 1000000 + 1 / 2\<rfloor>
      in decimal (q div 1000000) @ ''.''
           @ map (\<lambda>k. digit_char (q div 10 ^ k mod 10)) [5, 4, 3, 2, 1, 0])"

section \<open>The shader generator: passes\<close>

lemma find_char_None: "(find_char c s = None) = (c \<notin> set s)"
  by (induction s) auto

lemma find_char_Some: "find_char c s = Some p \<Longrightarrow> p < length s \<and> s ! p = c"
proof (induction s arbitrary: p)
  case Nil
  then show ?case by simp
next
  case (Cons x xs)
  then show ?case by (cases "x = c") auto
qed

lemma count_list_replace_at:
  assumes "p < length s" "s ! p = c" "c \<notin> set str"
  shows "count_list (replace_at p 1 str s) c < count_list s c"
proof -
  have s: "s = take p s @ c # drop (Suc p) s"
    using assms(1,2) id_take_nth_drop by blast
  have "count_list s c = count_list (take p s) c + 1 + count_list (drop (Suc p) s) c"
    by (subst s) (simp add: count_list_append)
  moreover have "count_list (replace_at p 1 str s) c =
      count_list (take p s) c + count_list (drop (Suc p) s) c"
    using assms(3) by (simp add: replace_at_def count_list_append count_list_0_iff)
  ultimately show ?thesis by simp
qed

lemma set_replace_at: "set (replace_at p l str s) \<subseteq> set s \<union> set str"
  using set_take_subset [of p s] set_drop_subset [of "p + l" s]
  by (auto simp add: replace_at_def)

lemma Random_Element_in:
  "Random_Element arr sz r = Some (x, r') \<Longrightarrow> x \<in> set arr"
  by (auto simp add: Random_Element_def split_beta Let_def split: if_splits)

text \<open>Characters that stand for something still to be replaced: a slot of a later
  pass, a slot of the current pass, a constant placeholder.\<close>

definition token_free :: "string \<Rightarrow> bool" where
  "token_free s = (CHR ''&'' \<notin> set s \<and> CHR ''$'' \<notin> set s \<and> CHR ''#'' \<notin> set s)"

lemma functions_list_no_dollar: "\<forall>s\<in>set functions_list. CHR ''$'' \<notin> set s"
  by (simp add: functions_list_def)

lemma values_list_no_slot: "\<forall>s\<in>set values_list. CHR ''$'' \<notin> set s \<and> CHR ''&'' \<notin> set s"
  by (simp add: values_list_def)

text \<open>
  The choice of one replacement:
  \<^verbatim>\<open>rand.IntBetween(1, maxDepth * maxDepth) > i * i
      ? rand.Element(functions, functionsSize) : rand.Element(values, valuesSize)\<close>.
  The products stay far below \<open>2^31\<close> for the depths the generator draws.
\<close>

definition pick_replacement :: "int \<Rightarrow> int \<Rightarrow> Random \<Rightarrow> (string \<times> Random) option" where
  "pick_replacement maxDepth i rand =
     (case Random_IntBetween 1 (maxDepth * maxDepth) rand of
        None \<Rightarrow> None
      | Some (v, rand) \<Rightarrow>
          if v > i * i then Random_Element functions_list functionsSize rand
          else Random_Element values_list valuesSize rand)"

lemma pick_replacement_no_dollar:
  assumes "pick_replacement maxDepth i rand = Some (replacement, rand')"
  shows "CHR ''$'' \<notin> set replacement"
proof -
  have "replacement \<in> set functions_list \<or> replacement \<in> set values_list"
    using assms
    by (auto simp add: pick_replacement_def split: option.splits if_splits
        dest: Random_Element_in)
  then show ?thesis using functions_list_no_dollar values_list_no_slot by blast
qed

text \<open>The first inner loop of a pass: every \<^verbatim>\<open>&\<close> becomes \<^verbatim>\<open>$\<close>.\<close>

definition mark_slots :: "string \<Rightarrow> string" where
  "mark_slots buf = map (\<lambda>c. if c = CHR ''&'' then CHR ''$'' else c) buf"

text \<open>
  The second inner loop of a pass, on the buffer and the generator:
  \<^verbatim>\<open>pos = find('$'); while (pos != npos) { ...; replace(pos, 1, replacement); pos = find('$'); }\<close>
\<close>

function resolve_slots :: "int \<Rightarrow> int \<Rightarrow> string \<times> Random \<Rightarrow> (string \<times> Random) option" where
  "resolve_slots maxDepth i (buf, rand) =
     (case find_char (CHR ''$'') buf of
        None \<Rightarrow> Some (buf, rand)
      | Some pos \<Rightarrow>
          (case pick_replacement maxDepth i rand of
             None \<Rightarrow> None
           | Some (replacement, rand) \<Rightarrow>
               resolve_slots maxDepth i (replace_at pos 1 replacement buf, rand)))"
  by pat_completeness auto
termination
proof (relation "measure (\<lambda>(maxDepth, i, buf, rand). count_list buf (CHR ''$''))")
  show "wf (measure (\<lambda>(maxDepth, i, buf, rand). count_list buf (CHR ''$'')))" by simp
next
  fix maxDepth i :: int and buf :: string and rand :: Random and pos x2 replacement rand'
  assume f: "find_char (CHR ''$'') buf = Some pos"
    and p: "pick_replacement maxDepth i rand = Some x2" "(replacement, rand') = x2"
  have "CHR ''$'' \<notin> set replacement"
    using p pick_replacement_no_dollar [of maxDepth i rand replacement rand'] by simp
  then have "count_list (replace_at pos 1 replacement buf) (CHR ''$'') < count_list buf (CHR ''$'')"
    using find_char_Some [OF f] by (intro count_list_replace_at) simp_all
  then show "((maxDepth, i, replace_at pos 1 replacement buf, rand'), maxDepth, i, buf, rand)
      \<in> measure (\<lambda>(maxDepth, i, buf, rand). count_list buf (CHR ''$''))"
    by simp
qed

declare resolve_slots.simps [simp del]

text \<open>The outer loop \<^verbatim>\<open>for (int i = 0; i <= maxDepth; i++)\<close>, from pass \<open>i\<close> on.\<close>

function pass_loop :: "int \<Rightarrow> int \<Rightarrow> string \<times> Random \<Rightarrow> (string \<times> Random) option" where
  "pass_loop maxDepth i (buf, rand) =
     (if i \<le> maxDepth then
        (case resolve_slots maxDepth i (mark_slots buf, rand) of
           None \<Rightarrow> None
         | Some st \<Rightarrow> pass_loop maxDepth (i + 1) st)
      else Some (buf, rand))"
  by pat_completeness auto
termination
  by (relation "measure (\<lambda>(maxDepth, i, st). nat (maxDepth + 1 - i))") auto

declare pass_loop.simps [simp del]

section \<open>The shader generator: constants and the whole function\<close>

lemma digit_char_in: "d < 10 \<Longrightarrow> digit_char d \<in> set ''0123456789''"
  unfolding digit_char_def by (rule nth_mem) simp

lemma set_decimal: "set (decimal n) \<subseteq> set ''0123456789''"
proof (induction n rule: decimal.induct)
  case (1 n)
  show ?case
  proof (cases "n < 10")
    case True
    then show ?thesis using digit_char_in [of n] by (subst decimal.simps) simp
  next
    case False
    have "n mod 10 < 10" by simp
    then show ?thesis
      using False 1 digit_char_in [of "n mod 10"] by (subst decimal.simps) simp
  qed
qed

lemma set_to_string_float: "set (to_string_float v) \<subseteq> set ''0123456789.''"
proof -
  define D where "D = set ''0123456789''"
  define q where "q = nat \<lfloor>v * 1000000 + 1 / 2\<rfloor>"
  have dg: "\<And>n. digit_char (n mod 10) \<in> D"
    unfolding D_def by (rule digit_char_in) simp
  have a: "set (decimal (q div 1000000)) \<subseteq> D"
    unfolding D_def by (rule set_decimal)
  have b: "set (map (\<lambda>k. digit_char (q div 10 ^ k mod 10)) [5, 4, 3, 2, 1, 0]) \<subseteq> D"
    using dg by auto
  have ts: "to_string_float v =
      decimal (q div 1000000) @ ''.'' @ map (\<lambda>k. digit_char (q div 10 ^ k mod 10)) [5, 4, 3, 2, 1, 0]"
    unfolding to_string_float_def q_def Let_def ..
  have "set (to_string_float v) \<subseteq> D \<union> {CHR ''.''}"
    unfolding ts set_append using a b by auto
  moreover have "D \<union> {CHR ''.''} = set ''0123456789.''"
    unfolding D_def by auto
  ultimately show ?thesis by simp
qed

lemma to_string_float_no_hash: "CHR ''#'' \<notin> set (to_string_float v @ ''f'')"
  using set_to_string_float [of v] by auto

text \<open>
  The last loop: every \<^verbatim>\<open>#\<close> is replaced by
  \<^verbatim>\<open>std::to_string(rand.FloatO()) + 'f'\<close>, first occurrence first.
\<close>

function replace_constants :: "string \<times> Random \<Rightarrow> string \<times> Random" where
  "replace_constants (buf, rand) =
     (case find_char (CHR ''#'') buf of
        None \<Rightarrow> (buf, rand)
      | Some pos \<Rightarrow>
          (let (u, rand) = Random_FloatO rand
           in replace_constants (replace_at pos 1 (to_string_float u @ ''f'') buf, rand)))"
  by pat_completeness auto
termination
proof (relation "measure (\<lambda>(buf, rand). count_list buf (CHR ''#''))")
  show "wf (measure (\<lambda>(buf, rand). count_list buf (CHR ''#'')))" by simp
next
  fix buf :: string and rand :: Random and pos x u rand'
  assume f: "find_char (CHR ''#'') buf = Some pos"
  have "count_list (replace_at pos 1 (to_string_float u @ ''f'') buf) (CHR ''#'')
      < count_list buf (CHR ''#'')"
    using find_char_Some [OF f] to_string_float_no_hash [of u]
    by (intro count_list_replace_at) simp_all
  then show "((replace_at pos 1 (to_string_float u @ ''f'') buf, rand'), buf, rand)
      \<in> measure (\<lambda>(buf, rand). count_list buf (CHR ''#''))"
    by simp
qed

declare replace_constants.simps [simp del]

text \<open>
  \<^verbatim>\<open>std::string GenerateShaderCode(uint64_t seed)\<close>. A \<^verbatim>\<open>find\<close> of the mask token
  that fails would make \<^verbatim>\<open>replace\<close> throw; that and every undefined operation of the
  draws is \<open>None\<close>. The local \<^verbatim>\<open>mask\<close> is \<open>mask_text\<close> here.
\<close>

definition GenerateShaderCode :: "u64 \<Rightarrow> string option" where
  "GenerateShaderCode seed =
     (let rand = Random_init seed
      in case draw_maxDepth rand of
           None \<Rightarrow> None
         | Some (maxDepth, rand) \<Rightarrow>
             (case find_sub maskToken mainFunction of
                None \<Rightarrow> None
              | Some maskPos \<Rightarrow>
                  (case Random_Element masks_list masksSize rand of
                     None \<Rightarrow> None
                   | Some (mask_text, rand) \<Rightarrow>
                       (case pass_loop maxDepth 0
                               (replace_at maskPos (length maskToken) mask_text mainFunction, rand) of
                          None \<Rightarrow> None
                        | Some st \<Rightarrow>
                            Some (functionDefinitions @ fst (replace_constants st))))))"

section \<open>Properties of the hash functions\<close>

lemma unat_drop_bit_div: "unat (drop_bit k (w :: 'a::len word)) = unat w div 2 ^ k"
  unfolding unat_drop_bit_eq by (rule drop_bit_eq_div)

lemma square_plus_mod:
  "((s mod N) * (s mod N) + s mod N) mod N = (s * s + s) mod (N :: nat)"
  by (intro mod_add_cong mod_mult_cong) simp_all

lemma unat_xor_nat: "unat ((v :: 'a::len word) XOR w) = unat v XOR unat w"
  by (simp add: unsigned_xor_eq)

lemma unat_mult64: "unat ((x::u64) * k) = (unat x * unat k) mod 2 ^ 64"
  by (simp add: unat_word_ariths)

lemma unat_mult32: "unat ((x::u32) * k) = (unat x * unat k) mod 2 ^ 32"
  by (simp add: unat_word_ariths)

lemma unat_K64: "unat (0x9ddfea08eb382d69 :: u64) = 0x9DDFEA08EB382D69"
  by simp

lemma unat_K32: "unat (0x85ebca6b :: u32) = 0x85EBCA6B" "unat (0xc2b2ae35 :: u32) = 0xC2B2AE35"
  by simp_all

text \<open>
  C5. For all 64-bit \<open>a\<close> and \<open>b\<close>, \<open>Hash::Pair(a, b)\<close> is \<open>((s*s + s) / 2) + b\<close> with
  \<open>s = a + b\<close>, all arithmetic modulo \<open>2^64\<close> and the halving a right shift by one;
  \<open>Pair(0, 5) = 20\<close>, \<open>Pair(5, 0) = 15\<close>, so the function is asymmetric.
\<close>

theorem Hash_Pair64_formula:
  "unat (Hash_Pair64 a b) = Pair_spec (unat a) (unat b)
   \<and> Hash_Pair64 0 5 = 20 \<and> Hash_Pair64 5 0 = 15 \<and> Hash_Pair64 0 5 \<noteq> Hash_Pair64 5 0"
proof -
  define s where "s = unat a + unat b"
  have sq: "(s mod 2 ^ 64 * (s mod 2 ^ 64) + s mod 2 ^ 64) mod 2 ^ 64 = (s * s + s) mod 2 ^ 64"
    by (rule square_plus_mod)
  have "unat (Hash_Pair64 a b) = ((s * s + s) mod 2 ^ 64 div 2 + unat b) mod 2 ^ 64"
    by (simp add: Hash_Pair64_def Let_def unat_word_ariths unat_drop_bit_div mod_simps s_def)
  also have "\<dots> = Pair_spec (unat a) (unat b)"
    unfolding Pair_spec_def Let_def s_def [symmetric] sq ..
  finally have "unat (Hash_Pair64 a b) = Pair_spec (unat a) (unat b)" .
  moreover have "Hash_Pair64 0 5 = 20" and "Hash_Pair64 5 0 = 15"
    by (simp_all add: Hash_Pair64_def Let_def drop_bit_eq_div)
  ultimately show ?thesis by simp
qed

text \<open>
  C6. \<open>Hash::UInt64\<close> and \<open>Hash::UInt32\<close> compute the reference mixers of the
  specification, modulo \<open>2^64\<close> and \<open>2^32\<close>.
\<close>

theorem Hash_mixers_reference:
  "unat (Hash_UInt64 n) = mix64_spec (unat n) \<and> unat (Hash_UInt32 m) = mix32_spec (unat m)"
  unfolding Hash_UInt64_def Hash_UInt32_def mix64_spec_def mix32_spec_def Let_def
    unat_mult64 unat_mult32 unat_xor_nat unat_drop_bit_div unat_K64 unat_K32
  by (rule conjI; rule refl)

text \<open>
  C9. Zero is a fixed point of both scalar mixers, and the empty string, whose character
  fold leaves the accumulator at 0, hashes to 0 as well.
\<close>

theorem Hash_zero_fixed_point:
  "Hash_UInt64 0 = 0 \<and> Hash_UInt32 0 = 0 \<and> Hash_String64 widen [] = 0"
  by (simp add: Hash_UInt64_def Hash_UInt32_def Hash_String64_def)

section \<open>Properties of the engine\<close>

lemma same_gen_refl: "same_gen r r" by (simp add: same_gen_def)

lemma UInt64_same_gen:
  assumes "same_gen r g"
  shows "fst (Random_UInt64 r) = fst (Random_UInt64 g)"
    and "same_gen (snd (Random_UInt64 r)) (snd (Random_UInt64 g))"
  using assms by (simp_all add: same_gen_def Random_UInt64_def Let_def)

lemma UInt64_keeps_cache:
  "m_Cache (snd (Random_UInt64 r)) = m_Cache r"
  "m_HasCache (snd (Random_UInt64 r)) = m_HasCache r"
  by (simp_all add: Random_UInt64_def Let_def)

lemma UInt32_miss:
  assumes "\<not> m_HasCache r" "same_gen r g"
  shows "fst (Random_UInt32 r) = ucast (fst (Random_UInt64 g))"
    and "same_gen (snd (Random_UInt32 r)) (snd (Random_UInt64 g))"
    and "m_HasCache (snd (Random_UInt32 r))"
    and "m_Cache (snd (Random_UInt32 r)) = ucast (drop_bit 32 (fst (Random_UInt64 g)))"
  using assms UInt64_same_gen [OF assms(2)] UInt64_keeps_cache [of r]
  by (auto simp add: Random_UInt32_def same_gen_def split_beta Let_def)

lemma UInt32_hit:
  assumes "m_HasCache r"
  shows "fst (Random_UInt32 r) = m_Cache r"
    and "same_gen (snd (Random_UInt32 r)) r"
    and "\<not> m_HasCache (snd (Random_UInt32 r))"
  using assms by (simp_all add: Random_UInt32_def same_gen_def)

lemma same_gen_trans: "same_gen a b \<Longrightarrow> same_gen b c \<Longrightarrow> same_gen a c"
  by (simp add: same_gen_def)

lemma UInt32_calls_Suc:
  "UInt32_calls (Suc n) r =
     (fst (Random_UInt32 r) # fst (UInt32_calls n (snd (Random_UInt32 r))),
      snd (UInt32_calls n (snd (Random_UInt32 r))))"
  by (simp add: split_beta)

lemma UInt64_calls_Suc:
  "UInt64_calls (Suc n) r =
     (fst (Random_UInt64 r) # fst (UInt64_calls n (snd (Random_UInt64 r))),
      snd (UInt64_calls n (snd (Random_UInt64 r))))"
  by (simp add: split_beta)

lemma UInt32_calls_even:
  assumes "\<not> m_HasCache r" "same_gen r g"
  shows "fst (UInt32_calls (2 * n) r) = concat (map halves (fst (UInt64_calls n g)))
       \<and> same_gen (snd (UInt32_calls (2 * n) r)) (snd (UInt64_calls n g))
       \<and> \<not> m_HasCache (snd (UInt32_calls (2 * n) r))"
  using assms
proof (induction n arbitrary: r g)
  case 0
  then show ?case by simp
next
  case (Suc n)
  let ?r1 = "snd (Random_UInt32 r)"
  let ?r2 = "snd (Random_UInt32 ?r1)"
  let ?g1 = "snd (Random_UInt64 g)"
  let ?x = "fst (Random_UInt64 g)"
  note m = UInt32_miss [OF Suc.prems]
  note h = UInt32_hit [OF m(3)]
  have g2: "same_gen ?r2 ?g1" using h(2) m(2) by (rule same_gen_trans)
  have out: "[fst (Random_UInt32 r), fst (Random_UInt32 ?r1)] = halves ?x"
    by (simp add: halves_def m(1) h(1) m(4))
  note IH = Suc.IH [OF h(3) g2]
  have two: "2 * Suc n = Suc (Suc (2 * n))" by simp
  have "fst (UInt32_calls (2 * Suc n) r) =
          [fst (Random_UInt32 r), fst (Random_UInt32 ?r1)] @ fst (UInt32_calls (2 * n) ?r2)"
    and "snd (UInt32_calls (2 * Suc n) r) = snd (UInt32_calls (2 * n) ?r2)"
    unfolding two UInt32_calls_Suc by simp_all
  moreover have "fst (UInt64_calls (Suc n) g) = ?x # fst (UInt64_calls n ?g1)"
    and "snd (UInt64_calls (Suc n) g) = snd (UInt64_calls n ?g1)"
    unfolding UInt64_calls_Suc by simp_all
  ultimately show ?case
    using IH out by (simp del: UInt32_calls.simps UInt64_calls.simps)
qed

lemma UInt32_calls_odd:
  assumes "\<not> m_HasCache r" "same_gen r g"
  shows "fst (UInt32_calls (Suc (2 * n)) r) =
           concat (map halves (fst (UInt64_calls n g)))
             @ [ucast (last (fst (UInt64_calls (Suc n) g)))]
       \<and> same_gen (snd (UInt32_calls (Suc (2 * n)) r)) (snd (UInt64_calls (Suc n) g))
       \<and> m_HasCache (snd (UInt32_calls (Suc (2 * n)) r))
       \<and> m_Cache (snd (UInt32_calls (Suc (2 * n)) r)) =
           ucast (drop_bit 32 (last (fst (UInt64_calls (Suc n) g))))"
  using assms
proof (induction n arbitrary: r g)
  case 0
  note m = UInt32_miss [OF 0]
  show ?case using m by (simp add: split_beta)
next
  case (Suc n)
  let ?r1 = "snd (Random_UInt32 r)"
  let ?r2 = "snd (Random_UInt32 ?r1)"
  let ?g1 = "snd (Random_UInt64 g)"
  let ?x = "fst (Random_UInt64 g)"
  note m = UInt32_miss [OF Suc.prems]
  note h = UInt32_hit [OF m(3)]
  have g2: "same_gen ?r2 ?g1" using h(2) m(2) by (rule same_gen_trans)
  have out: "[fst (Random_UInt32 r), fst (Random_UInt32 ?r1)] = halves ?x"
    by (simp add: halves_def m(1) h(1) m(4))
  note IH = Suc.IH [OF h(3) g2]
  have two: "Suc (2 * Suc n) = Suc (Suc (Suc (2 * n)))" by simp
  have ne: "fst (UInt64_calls (Suc n) ?g1) \<noteq> []" by (simp add: split_beta)
  have "fst (UInt32_calls (Suc (2 * Suc n)) r) =
          [fst (Random_UInt32 r), fst (Random_UInt32 ?r1)] @ fst (UInt32_calls (Suc (2 * n)) ?r2)"
    and "snd (UInt32_calls (Suc (2 * Suc n)) r) = snd (UInt32_calls (Suc (2 * n)) ?r2)"
    unfolding two UInt32_calls_Suc [of "Suc (Suc (2 * n))"] UInt32_calls_Suc [of "Suc (2 * n)" ?r1]
    by simp_all
  moreover have "fst (UInt64_calls (Suc n) g) = ?x # fst (UInt64_calls n ?g1)"
    and "fst (UInt64_calls (Suc (Suc n)) g) = ?x # fst (UInt64_calls (Suc n) ?g1)"
    and "snd (UInt64_calls (Suc (Suc n)) g) = snd (UInt64_calls (Suc n) ?g1)"
    unfolding UInt64_calls_Suc [of _ g] by simp_all
  ultimately show ?case
    using IH out ne by (simp del: UInt32_calls.simps UInt64_calls.simps)
qed

lemma Random_init_fresh: "\<not> m_HasCache (Random_init seed)"
  by (simp add: Random_init_def)

text \<open>
  C4. \<open>Random::UInt32\<close> packs two results into one 64-bit draw. From a freshly
  constructed instance, the first \<open>2n\<close> calls return the halves, low then high, of the
  first \<open>n\<close> results of \<open>UInt64\<close> and leave the engine where \<open>n\<close> calls of \<open>UInt64\<close>
  leave it, with the cache empty; call \<open>2n + 1\<close> advances the engine by exactly one more
  \<open>UInt64\<close>, returns its low half and caches its high half, which call \<open>2n + 2\<close> returns
  without touching the engine.
\<close>

theorem UInt32_two_for_one:
  "(let R = Random_init seed;
        (ys, r) = UInt32_calls (2 * n) R;
        (xs, g) = UInt64_calls n R;
        (ys', r') = UInt32_calls (2 * n + 1) R;
        (xs', g') = UInt64_calls (n + 1) R
    in ys = concat (map halves xs)
       \<and> m_State r = m_State g \<and> m_Index r = m_Index g \<and> \<not> m_HasCache r
       \<and> ys' = ys @ [ucast (last xs')]
       \<and> m_State r' = m_State g' \<and> m_Index r' = m_Index g' \<and> m_HasCache r'
       \<and> m_Cache r' = ucast (drop_bit 32 (last xs')))"
proof -
  have fresh: "\<not> m_HasCache (Random_init seed)"
    by (rule Random_init_fresh)
  show ?thesis
    using UInt32_calls_even [OF fresh same_gen_refl, of n]
      UInt32_calls_odd [OF fresh same_gen_refl, of n]
    by (simp add: split_beta same_gen_def Let_def del: UInt32_calls.simps UInt64_calls.simps)
qed


subsection \<open>Ranged integers\<close>

lemma sint_drop_bit_1: "sint (drop_bit 1 (u::u32)) = uint u div 2"
proof -
  have u: "uint (drop_bit 1 u) = uint u div 2"
    by (simp add: drop_bit_eq_div uint_div)
  have "uint u < 2 ^ 32" using uint_bounded [of u] by simp
  then have b: "uint u div 2 < 2 ^ 31" by simp
  have c: "- (2 ^ 31) \<le> uint u div 2"
    by (rule order_trans [of _ 0]) simp_all
  have "sint (drop_bit 1 u) = signed_take_bit 31 (uint u div 2)"
    unfolding sint_uint u by simp
  also have "\<dots> = uint u div 2"
    by (rule signed_take_bit_int_eq_self) (use b c in simp_all)
  finally show ?thesis .
qed

lemma pos_int32_eq: "pos_int32 u = uint u div 2"
  unfolding pos_int32_def by (rule sint_drop_bit_1)

lemma PosInt32_range: "0 \<le> fst (Random_PosInt32 r) \<and> fst (Random_PosInt32 r) < 2 ^ 31"
proof -
  obtain u r' where ur: "Random_UInt32 r = (u, r')" by (cases "Random_UInt32 r")
  have "uint u < 2 ^ 32" using uint_bounded [of u] by simp
  then have "0 \<le> uint u div 2 \<and> uint u div 2 < 2 ^ 31" by simp
  then show ?thesis
    unfolding Random_PosInt32_def ur by (simp only: pos_int32_eq Let_def prod.case fst_conv)
qed

lemma IntBetween_expr_range:
  assumes "0 \<le> p" "p < 2 ^ 31" "lo < hi" "hi - lo < 2 ^ 31" "i32_ok lo" "i32_ok hi"
  shows "\<exists>v. IntBetween_expr p lo hi = Some v \<and> lo \<le> v \<and> v < hi \<and> v = p mod (hi - lo) + lo"
proof -
  have d: "0 < hi - lo" using assms by simp
  have m: "p smod (hi - lo) = p mod (hi - lo)"
    using assms(1) d by (simp add: smod_int_alt_def sgn_if)
  have r: "0 \<le> p mod (hi - lo)" "p mod (hi - lo) < hi - lo" using d by simp_all
  have ok1: "i32_ok (hi - lo)" using d assms(4) by (simp add: i32_ok_def)
  have ok2: "i32_ok (p mod (hi - lo) + lo)"
    using r assms(5,6) by (simp add: i32_ok_def)
  show ?thesis using d r ok1 ok2 by (simp add: IntBetween_expr_def m)
qed

lemma IntBetween_expr_zero: "IntBetween_expr p lo lo = None"
  by (simp add: IntBetween_expr_def)

lemma Hash_PosInt32_range: "0 \<le> Hash_PosInt32 n \<and> Hash_PosInt32 n < 2 ^ 31"
proof -
  have "uint (Hash_UInt32 n) < 2 ^ 32" using uint_bounded [of "Hash_UInt32 n"] by simp
  then have "0 \<le> uint (Hash_UInt32 n) div 2 \<and> uint (Hash_UInt32 n) div 2 < 2 ^ 31" by simp
  then show ?thesis
    unfolding Hash_PosInt32_def by (simp only: pos_int32_eq)
qed

text \<open>
  C10. For 32-bit \<open>min < max\<close> whose difference is representable, \<open>IntBetween(min, max)\<close>
  is defined and lies in \<open>[min, max)\<close>, for the engine and for the hash alike, because
  \<open>PosInt32\<close> is never negative; with \<open>min = max\<close> the divisor is zero and the operation
  is undefined.
\<close>

theorem IntBetween_half_open:
  assumes "i32_ok lo" "i32_ok hi" "lo < hi" "hi - lo < 2 ^ 31"
  shows "0 \<le> fst (Random_PosInt32 r) \<and> 0 \<le> Hash_PosInt32 n
       \<and> (\<exists>v r'. Random_IntBetween lo hi r = Some (v, r') \<and> lo \<le> v \<and> v < hi)
       \<and> (\<exists>v. Hash_IntBetween n lo hi = Some v \<and> lo \<le> v \<and> v < hi)
       \<and> Random_IntBetween lo lo r = None \<and> Hash_IntBetween n lo lo = None"
proof -
  obtain p r' where pr: "Random_PosInt32 r = (p, r')" by (cases "Random_PosInt32 r")
  have p: "0 \<le> p" "p < 2 ^ 31" using PosInt32_range [of r] by (simp_all add: pr)
  have h: "0 \<le> Hash_PosInt32 n" "Hash_PosInt32 n < 2 ^ 31"
    using Hash_PosInt32_range [of n] by simp_all
  obtain v where v: "IntBetween_expr p lo hi = Some v" "lo \<le> v" "v < hi"
    using IntBetween_expr_range [OF p assms(3,4,1,2)] by blast
  obtain w where w: "IntBetween_expr (Hash_PosInt32 n) lo hi = Some w" "lo \<le> w" "w < hi"
    using IntBetween_expr_range [OF h assms(3,4,1,2)] by blast
  have "Random_IntBetween lo hi r = Some (v, r')"
    by (simp add: Random_IntBetween_def pr v(1))
  moreover have "Hash_IntBetween n lo hi = Some w"
    by (simp add: Hash_IntBetween_def w(1))
  moreover have "Random_IntBetween lo lo r = None" "Hash_IntBetween n lo lo = None"
    by (simp_all add: Random_IntBetween_def Hash_IntBetween_def pr IntBetween_expr_zero)
  ultimately show ?thesis using p(1) h(1) v(2,3) w(2,3) pr by simp
qed

theorem IntBetween_half_open_witness:
  "i32_ok 3 \<and> i32_ok 7 \<and> (3::int) < 7 \<and> (7::int) - 3 < 2 ^ 31
   \<and> 0 \<le> fst (Random_PosInt32 (Random_init 0)) \<and> 0 \<le> Hash_PosInt32 0
   \<and> (\<exists>v r'. Random_IntBetween 3 7 (Random_init 0) = Some (v, r') \<and> 3 \<le> v \<and> v < 7)
   \<and> (\<exists>v. Hash_IntBetween 0 3 7 = Some v \<and> 3 \<le> v \<and> v < 7)
   \<and> Random_IntBetween 3 3 (Random_init 0) = None \<and> Hash_IntBetween 0 3 3 = None"
proof -
  have a: "i32_ok 3" "i32_ok 7" "(3::int) < 7" "(7::int) - 3 < 2 ^ 31"
    by (simp_all add: i32_ok_def)
  show ?thesis
    using a IntBetween_half_open [OF a, of "Random_init 0" 0] by blast
qed


section \<open>Properties of the shuffle\<close>





section \<open>Properties of the depth\<close>

lemma quarter_range: "0 \<le> quarter u" "quarter u \<le> 3"
  by (simp_all add: quarter_def) 

lemma IntBetween_3_7: "IntBetween_expr (pos_int32 u) 3 7 = Some (quarter u + 3)"
proof -
  have "uint u < 2 ^ 32" using uint_bounded [of u] by simp
  then have p: "0 \<le> uint u div 2" "uint u div 2 < 2 ^ 31" by simp_all
  have a: "(3::int) < 7" "(7::int) - 3 < 2 ^ 31" "i32_ok 3" "i32_ok 7"
    by (simp_all add: i32_ok_def)
  show ?thesis
    using IntBetween_expr_range [OF p a] by (auto simp add: pos_int32_eq quarter_def)
qed

lemma maxDepth_of_draws_eq: "maxDepth_of_draws u1 u2 = Some (quarter u1 + quarter u2 + 6)"
  by (simp add: maxDepth_of_draws_def IntBetween_3_7)

lemma draw_maxDepth_eq:
  "draw_maxDepth r =
     Some (quarter (fst (Random_UInt32 r)) + quarter (fst (Random_UInt32 (snd (Random_UInt32 r)))) + 6,
           snd (Random_UInt32 (snd (Random_UInt32 r))))"
  by (simp add: draw_maxDepth_def Random_IntBetween_def Random_PosInt32_def split_beta
      IntBetween_3_7)

lemma quarter_examples: "quarter 0 = 0" "quarter 2 = 1" "quarter 4 = 2" "quarter 6 = 3"
  by (simp_all add: quarter_def)

lemma maxDepth_values_eq: "maxDepth_values = {6..12}"
proof (rule set_eqI)
  fix d :: int
  show "(d \<in> maxDepth_values) = (d \<in> {6..12})"
  proof
    assume "d \<in> maxDepth_values"
    then obtain u1 u2 where "d = quarter u1 + quarter u2 + 6"
      by (auto simp add: maxDepth_values_def maxDepth_of_draws_eq)
    then show "d \<in> {6..12}"
      using quarter_range [of u1] quarter_range [of u2] by simp
  next
    assume "d \<in> {6..12}"
    then consider "d = 6" | "d = 7" | "d = 8" | "d = 9" | "d = 10" | "d = 11" | "d = 12"
      by (simp; linarith)
    then have "\<exists>u1 u2. quarter u1 + quarter u2 + 6 = d"
    proof cases
      case 1 then show ?thesis using quarter_examples(1) by (intro exI [of _ 0]) simp
    next
      case 2 then show ?thesis using quarter_examples(1,2) by (intro exI [of _ 0] exI [of _ 2]) simp
    next
      case 3 then show ?thesis using quarter_examples(1,3) by (intro exI [of _ 0] exI [of _ 4]) simp
    next
      case 4 then show ?thesis using quarter_examples(1,4) by (intro exI [of _ 0] exI [of _ 6]) simp
    next
      case 5 then show ?thesis using quarter_examples(2,4) by (intro exI [of _ 2] exI [of _ 6]) simp
    next
      case 6 then show ?thesis using quarter_examples(3,4) by (intro exI [of _ 4] exI [of _ 6]) simp
    next
      case 7 then show ?thesis using quarter_examples(4) by (intro exI [of _ 6]) simp
    qed
    then show "d \<in> maxDepth_values"
      by (simp add: maxDepth_values_def maxDepth_of_draws_eq)
  qed
qed

lemma halved_mod4: "(x::int) div 2 mod 4 = x mod 8 div 2"
proof -
  have "x mod (2 * 4) = 2 * (x div 2 mod 4) + x mod 2"
    by (rule zmod_zmult2_eq) simp
  then have "x mod 8 div 2 = (2 * (x div 2 mod 4) + x mod 2) div 2" by simp
  also have "\<dots> = x div 2 mod 4" by simp
  finally show ?thesis by simp
qed

lemma add2_halved: "((x::int) + 2) mod 8 div 2 = (x mod 8 div 2 + 1) mod 4"
proof -
  have e: "(x + 2) mod 8 = (x mod 8 + 2) mod 8" by (simp add: mod_simps)
  have "0 \<le> x mod 8" "x mod 8 < 8" by simp_all
  then have "x mod 8 \<in> {0, 1, 2, 3, 4, 5, 6, 7}" by (simp; linarith)
  then show ?thesis unfolding e by (elim insertE emptyE; simp)
qed

lemma next_quarter:
  assumes "q = (q' + 1) mod 4" "q = k + 1" "0 \<le> k" "k < 3" "0 \<le> q'" "q' \<le> (3::int)"
  shows "q' = k"
proof (cases "q' = 3")
  case True
  then show ?thesis using assms by simp
next
  case False
  then have "q' + 1 < 4" "0 \<le> q' + 1" using assms by simp_all
  then have "(q' + 1) mod 4 = q' + 1" by simp
  then show ?thesis using assms by simp
qed

lemma quarter_add2: "quarter (u + 2) = (quarter u + 1) mod 4"
proof -
  have h2: "\<And>x::int. x mod 2 ^ 32 mod 8 = x mod 8"
    by (rule mod_mod_cancel) simp
  have "uint (u + 2) = (uint u + 2) mod 2 ^ 32"
    by (simp add: uint_word_ariths)
  then have "quarter (u + 2) = (uint u + 2) mod 8 div 2"
    unfolding quarter_def halved_mod4 by (simp only: h2)
  also have "\<dots> = (uint u mod 8 div 2 + 1) mod 4" by (rule add2_halved)
  finally show ?thesis unfolding quarter_def halved_mod4 .
qed

lemma quarter_class_step:
  assumes "0 \<le> k" "k < 3"
  shows "quarter_class (k + 1) = (\<lambda>u. u + 2) ` quarter_class k"
proof (rule set_eqI)
  fix v :: u32
  show "(v \<in> quarter_class (k + 1)) = (v \<in> (\<lambda>u. u + 2) ` quarter_class k)"
  proof
    assume "v \<in> quarter_class (k + 1)"
    then have v: "quarter v = k + 1" by (simp add: quarter_class_def)
    have "quarter v = (quarter (v - 2) + 1) mod 4"
      using quarter_add2 [of "v - 2"] by simp
    then have "quarter (v - 2) = k"
      using v assms quarter_range [of "v - 2"] by (rule next_quarter [of "quarter v"])
    then have "v - 2 \<in> quarter_class k" by (simp add: quarter_class_def)
    moreover have "v = (v - 2) + 2" by simp
    ultimately show "v \<in> (\<lambda>u. u + 2) ` quarter_class k" by (rule rev_image_eqI)
  next
    assume "v \<in> (\<lambda>u. u + 2) ` quarter_class k"
    then obtain u where u: "quarter u = k" "v = u + 2" by (auto simp add: quarter_class_def)
    then show "v \<in> quarter_class (k + 1)"
      using assms by (simp add: quarter_class_def quarter_add2)
  qed
qed

lemma card_quarter_class_step:
  assumes "0 \<le> k" "k < 3"
  shows "card (quarter_class (k + 1)) = card (quarter_class k)"
  unfolding quarter_class_step [OF assms]
  by (rule card_image) (simp add: inj_on_def)

lemma quarter_class_cover: "(UNIV :: u32 set) = quarter_class 0 \<union> quarter_class 1 \<union> quarter_class 2 \<union> quarter_class 3"
proof -
  have "\<And>u. quarter u = 0 \<or> quarter u = 1 \<or> quarter u = 2 \<or> quarter u = 3"
  proof -
    fix u :: u32
    show "quarter u = 0 \<or> quarter u = 1 \<or> quarter u = 2 \<or> quarter u = 3"
      using quarter_range [of u] by linarith
  qed
  then show ?thesis unfolding quarter_class_def by blast
qed

lemma quarter_class_disjoint: "j \<noteq> k \<Longrightarrow> quarter_class j \<inter> quarter_class k = {}"
  by (auto simp add: quarter_class_def)

lemma card_quarter_cover:
  "card (quarter_class 0 \<union> quarter_class 1 \<union> quarter_class 2 \<union> quarter_class 3) =
          card (quarter_class 0) + card (quarter_class 1) + card (quarter_class 2) + card (quarter_class 3)"
proof -
  have fin: "\<And>k. finite (quarter_class k)" by simp
  have a: "card (quarter_class 0 \<union> quarter_class 1) = card (quarter_class 0) + card (quarter_class 1)"
    by (rule card_Un_disjoint [OF fin fin]) (simp add: quarter_class_disjoint)
  have b: "card (quarter_class 0 \<union> quarter_class 1 \<union> quarter_class 2)
      = card (quarter_class 0 \<union> quarter_class 1) + card (quarter_class 2)"
    by (rule card_Un_disjoint) (simp_all add: quarter_class_disjoint Int_Un_distrib2)
  have c: "card (quarter_class 0 \<union> quarter_class 1 \<union> quarter_class 2 \<union> quarter_class 3)
      = card (quarter_class 0 \<union> quarter_class 1 \<union> quarter_class 2) + card (quarter_class 3)"
    by (rule card_Un_disjoint) (simp_all add: quarter_class_disjoint Int_Un_distrib2)
  show ?thesis unfolding c b a ..
qed

lemma card_quarter_class: "card (quarter_class 0) = 2 ^ 30" "card (quarter_class 1) = 2 ^ 30"
  "card (quarter_class 2) = 2 ^ 30" "card (quarter_class 3) = 2 ^ 30"
proof -
  have c1: "card (quarter_class 1) = card (quarter_class 0)"
    using card_quarter_class_step [of 0] by simp
  have c2: "card (quarter_class 2) = card (quarter_class 1)"
    using card_quarter_class_step [of 1] by simp
  have c3: "card (quarter_class 3) = card (quarter_class 2)"
    using card_quarter_class_step [of 2] by simp
  have "card (UNIV :: u32 set) = 2 ^ 32" by (simp add: card_word)
  then have "card (quarter_class 0) + card (quarter_class 1) + card (quarter_class 2)
      + card (quarter_class 3) = 2 ^ 32"
    unfolding quarter_class_cover card_quarter_cover .
  then have "4 * card (quarter_class 0) = 2 ^ 32"
    unfolding c3 c2 c1 by simp
  then show "card (quarter_class 0) = 2 ^ 30" by simp
  then show "card (quarter_class 1) = 2 ^ 30" "card (quarter_class 2) = 2 ^ 30"
    "card (quarter_class 3) = 2 ^ 30"
    unfolding c3 c2 c1 by simp_all
qed

lemma card_quarter_class_if:
  "card (quarter_class j) = (if 0 \<le> j \<and> j \<le> 3 then 2 ^ 30 else 0)"
proof (cases "0 \<le> j \<and> j \<le> 3")
  case True
  then have "j = 0 \<or> j = 1 \<or> j = 2 \<or> j = 3" by linarith
  then show ?thesis using card_quarter_class by auto
next
  case False
  then have "quarter_class j = {}"
    using quarter_range by (auto simp add: quarter_class_def)
  then show ?thesis using False by simp
qed

lemma depth_pairs_decomp:
  "{(u1, u2). maxDepth_of_draws u1 u2 = Some d} =
     (\<Union>k\<in>{0, 1, 2, 3}. quarter_class k \<times> quarter_class (d - 6 - k))"
proof -
  have "\<And>u. quarter u = 0 \<or> quarter u = 1 \<or> quarter u = 2 \<or> quarter u = 3"
  proof -
    fix u :: u32
    show "quarter u = 0 \<or> quarter u = 1 \<or> quarter u = 2 \<or> quarter u = 3"
      using quarter_range [of u] by linarith
  qed
  then show ?thesis
    unfolding maxDepth_of_draws_eq quarter_class_def by fastforce
qed

lemma depth_count_sum:
  "depth_count d = (\<Sum>k\<in>{0, 1, 2, 3}. card (quarter_class k) * card (quarter_class (d - 6 - k)))"
proof -
  have "card (\<Union>k\<in>{0, 1, 2, 3}. quarter_class k \<times> quarter_class (d - 6 - k)) =
          (\<Sum>k\<in>{0, 1, 2, 3}. card (quarter_class k \<times> quarter_class (d - 6 - k)))"
  proof (rule card_UN_disjoint)
    show "finite {0, 1, 2, 3 :: int}" by simp
    show "\<forall>i\<in>{0, 1, 2, 3}. finite (quarter_class i \<times> quarter_class (d - 6 - i))" by simp
    show "\<forall>i\<in>{0, 1, 2, 3}. \<forall>j\<in>{0, 1, 2, 3}. i \<noteq> j \<longrightarrow>
            quarter_class i \<times> quarter_class (d - 6 - i)
              \<inter> quarter_class j \<times> quarter_class (d - 6 - j) = {}"
      unfolding quarter_class_def by blast
  qed
  then show ?thesis
    unfolding depth_count_def depth_pairs_decomp by (simp only: card_cartesian_product)
qed

lemma depth_count_closed: "depth_count d = nat (4 - \<bar>d - 9\<bar>) * 2 ^ 60"
proof -
  consider "d \<le> 5" | "d = 6" | "d = 7" | "d = 8" | "d = 9" | "d = 10" | "d = 11" | "d = 12"
    | "13 \<le> d"
    by linarith
  then show ?thesis
    unfolding depth_count_sum card_quarter_class_if
    by cases simp_all
qed

lemma depth_count_peak:
  "depth_count d \<le> depth_count 9 \<and> (depth_count d = depth_count 9) = (d = 9)"
proof -
  have n: "depth_count 9 = 4 * 2 ^ 60" unfolding depth_count_closed by simp
  have "nat (4 - \<bar>d - 9\<bar>) \<le> 4 \<and> (nat (4 - \<bar>d - 9\<bar>) = 4) = (d = 9)" by linarith
  then show ?thesis unfolding n unfolding depth_count_closed by simp
qed

text \<open>
  C2, as stated, has \<open>maxDepth\<close> range over \<open>[6, 14]\<close> with every value attainable. The
  interval of \<open>IntBetween\<close> is half-open, so each draw is at most 6 and no pair of draw
  outcomes gives 14.
\<close>

theorem maxDepth_not_14: "14 \<notin> maxDepth_values"
  by (simp add: maxDepth_values_eq)

text \<open>
  C2, amended. \<open>maxDepth\<close> is the sum of two draws \<open>IntBetween(3, 7)\<close>, each decided by one
  32-bit result of the engine; the values it takes over all pairs of results are exactly
  the integers of \<open>[6, 12]\<close>; the number of pairs giving depth \<open>d\<close> is
  \<open>(4 - |d - 9|) * 2^60\<close> (0 outside the range), which is largest at 9 and only there.
\<close>

theorem maxDepth_range_and_peak:
  "(let (us, r') = UInt32_calls 2 r
    in draw_maxDepth r = map_option (\<lambda>d. (d, r')) (maxDepth_of_draws (us ! 0) (us ! 1)))
   \<and> (\<exists>d r'. draw_maxDepth r = Some (d, r') \<and> d \<in> maxDepth_values)
   \<and> maxDepth_values = {6..12}
   \<and> depth_count d = nat (4 - \<bar>d - 9\<bar>) * 2 ^ 60
   \<and> depth_count d \<le> depth_count 9 \<and> (depth_count d = depth_count 9) = (d = 9)"
proof -
  have two: "UInt32_calls 2 r = UInt32_calls (Suc (Suc 0)) r" by (simp add: numeral_2_eq_2)
  have a: "(let (us, r') = UInt32_calls 2 r
    in draw_maxDepth r = map_option (\<lambda>d. (d, r')) (maxDepth_of_draws (us ! 0) (us ! 1)))"
    unfolding two by (simp add: draw_maxDepth_eq maxDepth_of_draws_eq split_beta)
  have b: "\<exists>d r'. draw_maxDepth r = Some (d, r') \<and> d \<in> maxDepth_values"
    unfolding draw_maxDepth_eq maxDepth_values_def maxDepth_of_draws_eq by blast
  show ?thesis
    using a b maxDepth_values_eq depth_count_closed [of d] depth_count_peak [of d] by blast
qed

section \<open>Properties of the generator\<close>

lemma Random_IntBetween_range:
  assumes "i32_ok lo" "i32_ok hi" "lo < hi" "hi - lo < 2 ^ 31"
  shows "\<exists>v r'. Random_IntBetween lo hi r = Some (v, r') \<and> lo \<le> v \<and> v < hi"
proof -
  obtain p r' where pr: "Random_PosInt32 r = (p, r')" by (cases "Random_PosInt32 r")
  have p: "0 \<le> p" "p < 2 ^ 31" using PosInt32_range [of r] by (simp_all add: pr)
  obtain v where v: "IntBetween_expr p lo hi = Some v" "lo \<le> v" "v < hi"
    using IntBetween_expr_range [OF p assms(3,4,1,2)] by blast
  have "Random_IntBetween lo hi r = Some (v, r')"
    by (simp add: Random_IntBetween_def pr v(1))
  then show ?thesis using v(2,3) by blast
qed

lemma Random_Element_defined:
  assumes "arr \<noteq> []"
  shows "\<exists>x r'. Random_Element arr (length arr) r = Some (x, r') \<and> x \<in> set arr"
proof -
  obtain u r' where ur: "Random_UInt32 r = (u, r')" by (cases "Random_UInt32 r")
  have l: "0 < length arr" using assms by simp
  then have i: "unat u mod length arr < length arr" by (rule mod_less_divisor)
  then have "Random_Element arr (length arr) r = Some (arr ! (unat u mod length arr), r')"
    using l by (simp add: Random_Element_def ur not_le)
  then show ?thesis using i nth_mem by blast
qed

lemma square_bounds:
  assumes "2 \<le> m" "m * m < 2 ^ 31"
  shows "i32_ok 1" "i32_ok (m * m)" "1 < m * m" "m * m - 1 < 2 ^ 31"
proof -
  have "2 * 2 \<le> m * m" using assms(1) by (intro mult_mono) simp_all
  then show "1 < m * m" by simp
  then show "i32_ok (m * m)" using assms(2) by (simp add: i32_ok_def)
  show "i32_ok 1" by (simp add: i32_ok_def)
  show "m * m - 1 < 2 ^ 31" using assms(2) by simp
qed

lemma functions_list_nonempty: "functions_list \<noteq> []"
  by (simp add: functions_list_def)

lemma values_list_nonempty: "values_list \<noteq> []"
  by (simp add: values_list_def)

lemma masks_list_nonempty: "masks_list \<noteq> []"
  by (simp add: masks_list_def)

lemma pick_replacement_defined:
  assumes "2 \<le> m" "m * m < 2 ^ 31"
  shows "\<exists>rep r'. pick_replacement m i r = Some (rep, r')"
proof -
  obtain v r1 where v: "Random_IntBetween 1 (m * m) r = Some (v, r1)"
    using Random_IntBetween_range [OF square_bounds [OF assms], of r] by blast
  obtain x r2 where x: "Random_Element functions_list functionsSize r1 = Some (x, r2)"
    using Random_Element_defined [OF functions_list_nonempty, of r1]
    unfolding functionsSize_def by blast
  obtain y r3 where y: "Random_Element values_list valuesSize r1 = Some (y, r3)"
    using Random_Element_defined [OF values_list_nonempty, of r1]
    unfolding valuesSize_def by blast
  show ?thesis by (simp add: pick_replacement_def v x y)
qed

lemma pick_replacement_final:
  assumes "2 \<le> m" "m * m < 2 ^ 31"
  shows "\<exists>rep r'. pick_replacement m m r = Some (rep, r') \<and> rep \<in> set values_list"
proof -
  obtain v r1 where v: "Random_IntBetween 1 (m * m) r = Some (v, r1)" "v < m * m"
    using Random_IntBetween_range [OF square_bounds [OF assms], of r] by blast
  obtain y r3 where y: "Random_Element values_list valuesSize r1 = Some (y, r3)"
      "y \<in> set values_list"
    using Random_Element_defined [OF values_list_nonempty, of r1]
    unfolding valuesSize_def by blast
  show ?thesis using v(2) y(2) by (simp add: pick_replacement_def v(1) y(1))
qed

lemma resolve_slots_no_dollar:
  "resolve_slots m i st = Some (b', r') \<Longrightarrow> CHR ''$'' \<notin> set b'"
proof (induction m i st rule: resolve_slots.induct)
  case (1 maxDepth i buf rand)
  show ?case
  proof (cases "find_char (CHR ''$'') buf")
    case None
    then have "b' = buf" using "1.prems" by (simp add: resolve_slots.simps)
    then show ?thesis using None by (simp add: find_char_None)
  next
    case (Some pos)
    show ?thesis
    proof (cases "pick_replacement maxDepth i rand")
      case None
      then show ?thesis using "1.prems" Some by (simp add: resolve_slots.simps)
    next
      case (Some x)
      obtain rep rand' where x: "x = (rep, rand')" by (cases x)
      have "resolve_slots maxDepth i (replace_at pos 1 rep buf, rand') = Some (b', r')"
        using "1.prems" \<open>find_char (CHR ''$'') buf = Some pos\<close> Some x
        by (simp add: resolve_slots.simps)
      then show ?thesis
        using "1.IH" [OF \<open>find_char (CHR ''$'') buf = Some pos\<close> Some x [symmetric]] by simp
    qed
  qed
qed

lemma resolve_slots_defined:
  assumes "2 \<le> m" "m * m < 2 ^ 31"
  shows "\<exists>b' r'. resolve_slots m i st = Some (b', r')"
  using assms
proof (induction m i st rule: resolve_slots.induct)
  case (1 maxDepth i buf rand)
  show ?case
  proof (cases "find_char (CHR ''$'') buf")
    case None
    then show ?thesis by (simp add: resolve_slots.simps)
  next
    case (Some pos)
    obtain rep rand' where p: "pick_replacement maxDepth i rand = Some (rep, rand')"
      using pick_replacement_defined [OF "1.prems"] by blast
    show ?thesis
      using "1.IH" [OF Some p refl "1.prems"] Some p by (simp add: resolve_slots.simps)
  qed
qed

lemma resolve_slots_final:
  assumes "2 \<le> m" "m * m < 2 ^ 31"
  shows "resolve_slots m i st = Some (b', r') \<Longrightarrow> i = m \<Longrightarrow> CHR ''&'' \<notin> set (fst st)
    \<Longrightarrow> CHR ''&'' \<notin> set b'"
  using assms
proof (induction m i st rule: resolve_slots.induct)
  case (1 maxDepth i buf rand)
  note m = "1.prems"(4,5)
  show ?case
  proof (cases "find_char (CHR ''$'') buf")
    case None
    then have "b' = buf" using "1.prems"(1) by (simp add: resolve_slots.simps)
    then show ?thesis using "1.prems"(3) by simp
  next
    case (Some pos)
    obtain rep rand' where p: "pick_replacement maxDepth maxDepth rand = Some (rep, rand')"
        "rep \<in> set values_list"
      using pick_replacement_final [OF m] by blast
    have p': "pick_replacement maxDepth i rand = Some (rep, rand')"
      using p(1) "1.prems"(2) by simp
    have "CHR ''&'' \<notin> set rep" using p(2) values_list_no_slot by blast
    then have clean: "CHR ''&'' \<notin> set (fst (replace_at pos 1 rep buf, rand'))"
      using "1.prems"(3) set_replace_at [of pos 1 rep buf] by auto
    have run: "resolve_slots maxDepth i (replace_at pos 1 rep buf, rand') = Some (b', r')"
      using "1.prems"(1) Some p' by (simp add: resolve_slots.simps)
    show ?thesis
      by (rule "1.IH" [OF Some p' refl run "1.prems"(2) clean m])
  qed
qed

lemma mark_slots_no_amp: "CHR ''&'' \<notin> set (mark_slots buf)"
  by (auto simp add: mark_slots_def)

lemma pass_loop_result:
  assumes "2 \<le> m" "m * m < 2 ^ 31"
  shows "i \<le> m \<Longrightarrow>
    \<exists>b' r'. pass_loop m i st = Some (b', r') \<and> CHR ''&'' \<notin> set b' \<and> CHR ''$'' \<notin> set b'"
  using assms
proof (induction m i st rule: pass_loop.induct)
  case (1 maxDepth i buf rand)
  note m = "1.prems"(2,3)
  obtain b1 r1 where rs: "resolve_slots maxDepth i (mark_slots buf, rand) = Some (b1, r1)"
    using resolve_slots_defined [OF m] by blast
  have nd: "CHR ''$'' \<notin> set b1" using resolve_slots_no_dollar [OF rs] .
  have step: "pass_loop maxDepth i (buf, rand) = pass_loop maxDepth (i + 1) (b1, r1)"
    using "1.prems"(1) rs by (simp add: pass_loop.simps [of maxDepth i])
  show ?case
  proof (cases "i = maxDepth")
    case True
    have na: "CHR ''&'' \<notin> set b1"
      using resolve_slots_final [OF m rs True] mark_slots_no_amp by simp
    have "pass_loop maxDepth (i + 1) (b1, r1) = Some (b1, r1)"
      using True by (subst pass_loop.simps) simp
    then show ?thesis using step na nd by simp
  next
    case False
    then have "i + 1 \<le> maxDepth" using "1.prems"(1) by simp
    then show ?thesis
      using "1.IH" [OF "1.prems"(1) rs _ m] step by simp
  qed
qed

lemma set_to_string_float_f: "set (to_string_float v @ ''f'') \<subseteq> set ''0123456789.f''"
proof -
  have a: "set (to_string_float v) \<subseteq> set ''0123456789.''" by (rule set_to_string_float)
  have b: "set ''0123456789.'' \<subseteq> set ''0123456789.f''" by simp
  have c: "CHR ''f'' \<in> set ''0123456789.f''" by simp
  have "set (to_string_float v @ ''f'') = set (to_string_float v) \<union> {CHR ''f''}" by simp
  then show ?thesis using a b c by blast
qed

lemma replace_constants_result_gen:
  assumes E: "\<And>u. set (to_string_float u @ ''f'') \<subseteq> E"
  shows "replace_constants st = (b', r') \<Longrightarrow>
     CHR ''#'' \<notin> set b' \<and> set b' \<subseteq> set (fst st) \<union> E"
proof (induction st rule: replace_constants.induct)
  case (1 buf rand)
  show ?case
  proof (cases "find_char (CHR ''#'') buf")
    case None
    then have "b' = buf" using "1.prems" by (simp add: replace_constants.simps)
    then show ?thesis using None by (auto simp add: find_char_None)
  next
    case (Some pos)
    obtain u rand' where f: "Random_FloatO rand = (u, rand')" by (cases "Random_FloatO rand")
    let ?buf = "replace_at pos 1 (to_string_float u @ ''f'') buf"
    have run: "replace_constants (?buf, rand') = (b', r')"
      using "1.prems" Some f by (simp add: replace_constants.simps [of buf])
    have IH: "CHR ''#'' \<notin> set b' \<and> set b' \<subseteq> set (fst (?buf, rand')) \<union> E"
      by (rule "1.IH" [OF Some refl f [symmetric] run])
    have "set ?buf \<subseteq> set buf \<union> E"
      using set_replace_at [of pos 1 "to_string_float u @ ''f''" buf] E [of u] by blast
    then show ?thesis using IH by auto
  qed
qed

lemma replace_constants_result:
  "replace_constants st = (b', r') \<Longrightarrow>
     CHR ''#'' \<notin> set b' \<and> set b' \<subseteq> set (fst st) \<union> set ''0123456789.f''"
  by (rule replace_constants_result_gen [OF set_to_string_float_f])

lemma set_source_text:
  "set (source_text ls) \<subseteq> {CHR 0x09, CHR ''\<newline>''} \<union> (\<Union>l\<in>set ls. set (snd l))"
proof (induction ls rule: source_text.induct)
  case 1
  then show ?case by simp
next
  case (2 n s)
  then show ?case by (auto simp add: tabs_def)
next
  case (3 n s v va)
  then show ?case by (auto simp add: tabs_def)
qed

lemma find_sub_append: "find_sub pat (xs @ pat @ ys) \<noteq> None"
proof (induction xs)
  case Nil
  show ?case
  proof (cases "pat @ ys")
    case Nil
    then show ?thesis by simp
  next
    case (Cons a list)
    have "take (length pat) (pat @ ys) = pat" by simp
    then have "take (length pat) (a # list) = pat" unfolding Cons .
    then show ?thesis using Cons by simp
  qed
next
  case (Cons x xs)
  then show ?case by simp
qed

lemma source_text_line:
  "\<exists>X Y. source_text (ls1 @ (n, s) # ls2) = X @ s @ Y"
proof (induction ls1)
  case Nil
  show ?case
  proof (cases ls2)
    case Nil
    have "source_text ([] @ (n, s) # ls2) = tabs n @ s @ []" using Nil by simp
    then show ?thesis by blast
  next
    case (Cons a list)
    have "source_text ([] @ (n, s) # ls2) = tabs n @ s @ (CHR ''\<newline>'' # source_text ls2)"
      using Cons by simp
    then show ?thesis by blast
  qed
next
  case (Cons a ls1)
  obtain m t where a: "a = (m, t)" by (cases a)
  obtain X Y where IH: "source_text (ls1 @ (n, s) # ls2) = X @ s @ Y" using Cons by blast
  obtain b rest where r: "ls1 @ (n, s) # ls2 = b # rest" by (cases "ls1 @ (n, s) # ls2") auto
  have "source_text ((a # ls1) @ (n, s) # ls2) =
      (tabs m @ t @ CHR ''\<newline>'' # X) @ s @ Y"
    using IH unfolding a by (simp add: r)
  then show ?case by blast
qed

lemma mask_line: "mainFunction_lines ! 43 = (2, ''let rgbMasked = '' @ maskToken @ '';'')"
  by (simp add: mainFunction_lines_def maskToken_def)

lemma mask_line_length: "43 < length mainFunction_lines"
  by (simp add: mainFunction_lines_def)

lemma find_mask: "\<exists>maskPos. find_sub maskToken mainFunction = Some maskPos"
proof -
  have "mainFunction_lines = take 43 mainFunction_lines
      @ (2, ''let rgbMasked = '' @ maskToken @ '';'') # drop (Suc 43) mainFunction_lines"
    using id_take_nth_drop [OF mask_line_length] unfolding mask_line .
  then obtain X Y where "mainFunction = X @ (''let rgbMasked = '' @ maskToken @ '';'') @ Y"
    unfolding mainFunction_def using source_text_line by metis
  then have "mainFunction = (X @ ''let rgbMasked = '') @ maskToken @ ('';'' @ Y)" by simp
  then show ?thesis using find_sub_append by (metis not_None_eq)
qed

lemma functionDefinitions_token_free: "token_free functionDefinitions"
proof -
  have "list_all (\<lambda>l. token_free (snd l)) functionDefinitions_lines"
    by (simp add: functionDefinitions_lines_def token_free_def tabs_def)
  then have "\<forall>l\<in>set functionDefinitions_lines. token_free (snd l)"
    by (simp add: list_all_iff)
  then show ?thesis
    using set_source_text [of functionDefinitions_lines]
    unfolding functionDefinitions_def token_free_def by fastforce
qed

lemma masks_list_clean: "\<forall>s\<in>set masks_list. CHR ''#'' \<notin> set s"
  by (simp add: masks_list_def)

lemma draw_maxDepth_range:
  "\<exists>m r'. draw_maxDepth r = Some (m, r') \<and> 6 \<le> m \<and> m \<le> 12"
proof -
  have "6 \<le> quarter u1 + quarter u2 + 6 \<and> quarter u1 + quarter u2 + 6 \<le> 12" for u1 u2
    using quarter_range [of u1] quarter_range [of u2] by simp
  then show ?thesis unfolding draw_maxDepth_eq by blast
qed

lemma generate_from_total:
  "\<exists>m rand1 maskPos mask_text rand2 st.
      draw_maxDepth rand = Some (m, rand1)
    \<and> find_sub maskToken mainFunction = Some maskPos
    \<and> Random_Element masks_list masksSize rand1 = Some (mask_text, rand2)
    \<and> pass_loop m 0 (replace_at maskPos (length maskToken) mask_text mainFunction, rand2) = Some st
    \<and> CHR ''&'' \<notin> set (fst st) \<and> CHR ''$'' \<notin> set (fst st)"
proof -
  obtain m rand1 where d: "draw_maxDepth rand = Some (m, rand1)" "6 \<le> m" "m \<le> 12"
    using draw_maxDepth_range by blast
  have m: "2 \<le> m" "m * m < 2 ^ 31"
  proof -
    show "2 \<le> m" using d(2) by simp
    have "m * m \<le> 12 * 12" using d(2,3) by (intro mult_mono) simp_all
    then show "m * m < 2 ^ 31" by simp
  qed
  obtain maskPos where f: "find_sub maskToken mainFunction = Some maskPos"
    using find_mask by blast
  obtain mask_text rand2 where e: "Random_Element masks_list masksSize rand1 = Some (mask_text, rand2)"
    using Random_Element_defined [OF masks_list_nonempty, of rand1]
    unfolding masksSize_def by blast
  obtain b r' where p:
    "pass_loop m 0 (replace_at maskPos (length maskToken) mask_text mainFunction, rand2) = Some (b, r')"
    "CHR ''&'' \<notin> set b" "CHR ''$'' \<notin> set b"
    using pass_loop_result [OF m, of 0] d(2) by fastforce
  show ?thesis using d(1) f e p by auto
qed

lemma GenerateShaderCode_total:
  "\<exists>out. GenerateShaderCode seed = Some out \<and> token_free out"
proof -
  obtain m rand1 maskPos mask_text rand2 st where g:
    "draw_maxDepth (Random_init seed) = Some (m, rand1)"
    "find_sub maskToken mainFunction = Some maskPos"
    "Random_Element masks_list masksSize rand1 = Some (mask_text, rand2)"
    "pass_loop m 0 (replace_at maskPos (length maskToken) mask_text mainFunction, rand2) = Some st"
    "CHR ''&'' \<notin> set (fst st)" "CHR ''$'' \<notin> set (fst st)"
    using generate_from_total [of "Random_init seed"] by blast
  obtain b r where rc: "replace_constants st = (b, r)" by (cases "replace_constants st")
  have c: "CHR ''#'' \<notin> set b" "set b \<subseteq> set (fst st) \<union> set ''0123456789.f''"
    using replace_constants_result [OF rc] by simp_all
  have d: "CHR ''&'' \<notin> set ''0123456789.f''" "CHR ''$'' \<notin> set ''0123456789.f''"
    by simp_all
  have "CHR ''&'' \<notin> set b" "CHR ''$'' \<notin> set b"
    using c(2) g(5,6) d by blast+
  then have "token_free (functionDefinitions @ b)"
    using c(1) functionDefinitions_token_free by (simp add: token_free_def)
  moreover have "GenerateShaderCode seed = Some (functionDefinitions @ b)"
    by (simp add: GenerateShaderCode_def g(1-4) rc)
  ultimately show ?thesis by blast
qed

text \<open>
  C3. For every depth \<open>m\<close> the loop can run with (any \<open>m \<ge> 2\<close> whose square fits 32
  bits; the generator draws 6 to 12), the choice at the final pass \<open>i = m\<close> is always a
  terminal value, the pass loop from pass 0 on any buffer ends with no \<^verbatim>\<open>&\<close> or \<^verbatim>\<open>$\<close>
  left, and the text \<open>GenerateShaderCode\<close> returns, for every seed, contains no \<^verbatim>\<open>&\<close>,
  \<^verbatim>\<open>$\<close> or \<^verbatim>\<open>#\<close>.
\<close>

theorem no_unresolved_tokens:
  assumes "2 \<le> m" "m * m < 2 ^ 31"
  shows "(\<exists>rep rand'. pick_replacement m m rand = Some (rep, rand') \<and> rep \<in> set values_list)
       \<and> (\<exists>b rand'. pass_loop m 0 (buf, rand) = Some (b, rand')
             \<and> CHR ''&'' \<notin> set b \<and> CHR ''$'' \<notin> set b)
       \<and> (\<exists>out. GenerateShaderCode seed = Some out
             \<and> CHR ''&'' \<notin> set out \<and> CHR ''$'' \<notin> set out \<and> CHR ''#'' \<notin> set out)"
proof -
  have "0 \<le> m" using assms(1) by simp
  then have "\<exists>b rand'. pass_loop m 0 (buf, rand) = Some (b, rand')
             \<and> CHR ''&'' \<notin> set b \<and> CHR ''$'' \<notin> set b"
    by (rule pass_loop_result [OF assms])
  then show ?thesis
    using pick_replacement_final [OF assms, of rand] GenerateShaderCode_total [of seed]
    unfolding token_free_def by blast
qed

theorem no_unresolved_tokens_witness:
  "(2::int) \<le> 6 \<and> (6::int) * 6 < 2 ^ 31
   \<and> (\<exists>rep rand'. pick_replacement 6 6 (Random_init 0) = Some (rep, rand')
         \<and> rep \<in> set values_list)
   \<and> (\<exists>b rand'. pass_loop 6 0 (''&'', Random_init 0) = Some (b, rand')
         \<and> CHR ''&'' \<notin> set b \<and> CHR ''$'' \<notin> set b)
   \<and> (\<exists>out. GenerateShaderCode 0 = Some out
         \<and> CHR ''&'' \<notin> set out \<and> CHR ''$'' \<notin> set out \<and> CHR ''#'' \<notin> set out)"
proof -
  have a: "(2::int) \<le> 6" "(6::int) * 6 < 2 ^ 31" by simp_all
  show ?thesis
    using a no_unresolved_tokens [OF a, of "Random_init 0" "''&''" 0] by blast
qed



end
